theory Spec2Isabelle
  imports Main
begin

section \<open>Python values used by the scripts\<close>

text \<open>
  The scripts work on Python \<open>str\<close> values. A string is modelled as a \<^typ>\<open>string\<close>
  whose characters stand for the code points 0 to 255; \<open>ord\<close> is \<^const>\<open>of_char\<close>.
  The character classes below are those of Python 3 on that range. Exceptions are values
  of the type \<open>py_error\<close>, and a computation that may raise returns \<open>py_error + 'a\<close>.
\<close>

datatype py_error = IndexError | ValueError

definition ord :: "char \<Rightarrow> int" where
  "ord c = int (of_char c)"

text \<open>\<open>str.isspace\<close>, which also decides where \<open>str.split()\<close> cuts.\<close>

definition isspace :: "char \<Rightarrow> bool" where
  "isspace c = (ord c \<in> {9, 10, 11, 12, 13, 28, 29, 30, 31, 32, 133, 160})"

text \<open>\<open>str.isdigit\<close>: the ten decimal digits and the superscripts 2, 3 and 1.\<close>

definition isdigit :: "char \<Rightarrow> bool" where
  "isdigit c = ((48 \<le> ord c \<and> ord c \<le> 57) \<or> ord c \<in> {178, 179, 185})"

text \<open>\<open>str.isupper\<close> and \<open>str.islower\<close> of a one-character string.\<close>

definition isupper :: "char \<Rightarrow> bool" where
  "isupper c = ((65 \<le> ord c \<and> ord c \<le> 90) \<or> (192 \<le> ord c \<and> ord c \<le> 214)
                \<or> (216 \<le> ord c \<and> ord c \<le> 222))"

definition islower :: "char \<Rightarrow> bool" where
  "islower c = ((97 \<le> ord c \<and> ord c \<le> 122) \<or> ord c \<in> {170, 181, 186}
                \<or> (223 \<le> ord c \<and> ord c \<le> 246) \<or> (248 \<le> ord c \<and> ord c \<le> 255))"

text \<open>\<open>int(c)\<close> of a one-character string: only a decimal digit converts.\<close>

definition int_of_char :: "char \<Rightarrow> py_error + int" where
  "int_of_char c = (if 48 \<le> ord c \<and> ord c \<le> 57 then Inr (ord c - 48) else Inl ValueError)"

text \<open>\<open>xs[i]\<close>: a negative index counts from the end, an index out of range raises.\<close>

definition py_index :: "'a list \<Rightarrow> int \<Rightarrow> py_error + 'a" where
  "py_index xs i =
     (if 0 \<le> i \<and> i < int (length xs) then Inr (xs ! nat i)
      else if i < 0 \<and> - int (length xs) \<le> i then Inr (xs ! nat (int (length xs) + i))
      else Inl IndexError)"

text \<open>\<open>board[r][c]\<close>: the row is fetched first, then the cell.\<close>

definition cell :: "char list list \<Rightarrow> int \<Rightarrow> int \<Rightarrow> py_error + char" where
  "cell board r c = (case py_index board r of Inl e \<Rightarrow> Inl e | Inr row \<Rightarrow> py_index row c)"

text \<open>
  \<open>s.split()\<close>: cut at runs of whitespace, no empty fields. \<open>cur\<close> is the field being
  read.
\<close>

fun split_acc :: "string \<Rightarrow> string \<Rightarrow> string list" where
  "split_acc cur [] = (if cur = [] then [] else [cur])"
| "split_acc cur (c # cs) =
     (if isspace c then (if cur = [] then split_acc [] cs else cur # split_acc [] cs)
      else split_acc (cur @ [c]) cs)"

definition split_ws :: "string \<Rightarrow> string list" where
  "split_ws s = split_acc [] s"

text \<open>\<open>s.split(sep)\<close> for a one-character separator: empty fields are kept.\<close>

fun split_sep_acc :: "char \<Rightarrow> string \<Rightarrow> string \<Rightarrow> string list" where
  "split_sep_acc sep cur [] = [cur]"
| "split_sep_acc sep cur (c # cs) =
     (if c = sep then cur # split_sep_acc sep [] cs else split_sep_acc sep (cur @ [c]) cs)"

definition split_sep :: "char \<Rightarrow> string \<Rightarrow> string list" where
  "split_sep sep s = split_sep_acc sep [] s"

section \<open>Board parsing\<close>

text \<open>
  The loop shared by \<open>validate_en_passant\<close> (lines 29 to 38), \<open>parse_fen_to_board\<close> and
  \<open>parse_and_display_board\<close>: a digit appends that many \<open>'.'\<close> cells, any other character
  is appended as it is. \<open>isdigit\<close> accepts the superscript digits, on which \<open>int\<close> raises.
\<close>

fun parse_rank :: "char list \<Rightarrow> string \<Rightarrow> py_error + char list" where
  "parse_rank row [] = Inr row"
| "parse_rank row (c # cs) =
     (if isdigit c then
        (case int_of_char c of
           Inl e \<Rightarrow> Inl e
         | Inr n \<Rightarrow> parse_rank (row @ replicate (nat n) (CHR ''.'')) cs)
      else parse_rank (row @ [c]) cs)"

fun parse_ranks :: "char list list \<Rightarrow> string list \<Rightarrow> py_error + char list list" where
  "parse_ranks board [] = Inr board"
| "parse_ranks board (rank # ranks) =
     (case parse_rank [] rank of
        Inl e \<Rightarrow> Inl e
      | Inr row \<Rightarrow> parse_ranks (board @ [row]) ranks)"

definition parse_board :: "string \<Rightarrow> py_error + char list list" where
  "parse_board board_part = parse_ranks [] (split_sep (CHR ''/'') board_part)"

section \<open>The en-passant validator\<close>

text \<open>
  Lines 42 to 69 of \<open>validate_en_passant\<close>: the value of \<open>valid\<close> for an en-passant
  field other than \<open>'-'\<close>. \<open>valid\<close> starts as \<open>False\<close> and each of the two adjacent-file
  tests may set it; both tests are run, so the second one can still raise after the first
  has succeeded. Row 4 of the board is rank 4 and row 3 is rank 5.
\<close>

definition en_passant_valid :: "char list list \<Rightarrow> string \<Rightarrow> string \<Rightarrow> py_error + bool" where
  "en_passant_valid board active_color en_passant =
     (case py_index en_passant 0 of Inl e \<Rightarrow> Inl e | Inr c0 \<Rightarrow>
      let file_idx = ord c0 - ord (CHR ''a'') in
      case py_index en_passant 1 of Inl e \<Rightarrow> Inl e | Inr c1 \<Rightarrow>
      case int_of_char c1 of Inl e \<Rightarrow> Inl e | Inr rank \<Rightarrow>
      let last_moved = (if active_color = ''w'' then ''black'' else ''white'') in
      if last_moved = ''white'' \<and> rank = 3 then
        (if 0 \<le> file_idx \<and> file_idx < 8 then
           (case cell board 4 file_idx of Inl e \<Rightarrow> Inl e | Inr p \<Rightarrow>
            if p = CHR ''P'' then
              (case (if file_idx > 0 then
                       (case cell board 4 (file_idx - 1) of Inl e \<Rightarrow> Inl e
                        | Inr q \<Rightarrow> Inr (q = CHR ''p''))
                     else Inr False) of Inl e \<Rightarrow> Inl e | Inr valid1 \<Rightarrow>
               if file_idx < 7 then
                 (case cell board 4 (file_idx + 1) of Inl e \<Rightarrow> Inl e
                  | Inr q \<Rightarrow> Inr (q = CHR ''p'' \<or> valid1))
               else Inr valid1)
            else Inr False)
         else Inr False)
      else if last_moved = ''black'' \<and> rank = 6 then
        (if 0 \<le> file_idx \<and> file_idx < 8 then
           (case cell board 3 file_idx of Inl e \<Rightarrow> Inl e | Inr p \<Rightarrow>
            if p = CHR ''p'' then
              (case (if file_idx > 0 then
                       (case cell board 3 (file_idx - 1) of Inl e \<Rightarrow> Inl e
                        | Inr q \<Rightarrow> Inr (q = CHR ''P''))
                     else Inr False) of Inl e \<Rightarrow> Inl e | Inr valid1 \<Rightarrow>
               if file_idx < 7 then
                 (case cell board 3 (file_idx + 1) of Inl e \<Rightarrow> Inl e
                  | Inr q \<Rightarrow> Inr (q = CHR ''P'' \<or> valid1))
               else Inr valid1)
            else Inr False)
         else Inr False)
      else Inr False)"

text \<open>
  Lines 41 and 71 to 73: the en-passant field that goes into the output. A field equal to
  \<open>'-'\<close> is not examined; any other field is kept when \<open>valid\<close> and replaced by \<open>'-'\<close>
  otherwise.
\<close>

definition check_en_passant :: "char list list \<Rightarrow> string \<Rightarrow> string \<Rightarrow> py_error + string" where
  "check_en_passant board active_color en_passant =
     (if en_passant \<noteq> ''-'' then
        (case en_passant_valid board active_color en_passant of
           Inl e \<Rightarrow> Inl e
         | Inr valid \<Rightarrow> Inr (if \<not> valid then ''-'' else en_passant))
      else Inr en_passant)"

text \<open>Line 76: the six fields joined by single spaces.\<close>

definition fen_line :: "string \<Rightarrow> string \<Rightarrow> string \<Rightarrow> string \<Rightarrow> string \<Rightarrow> string \<Rightarrow> string" where
  "fen_line board_part active_color castling en_passant halfmove fullmove =
     board_part @ '' '' @ active_color @ '' '' @ castling @ '' '' @ en_passant
       @ '' '' @ halfmove @ '' '' @ fullmove"

text \<open>
  \<open>validate_en_passant(fen, last_move=None)\<close>. The argument \<open>last_move\<close> is never read.
  The message printed when the field is corrected is not part of the returned value and
  is left out.
\<close>

definition validate_en_passant :: "string \<Rightarrow> string option \<Rightarrow> py_error + string" where
  "validate_en_passant fen last_move =
     (let parts = split_ws fen in
      if length parts \<noteq> 6 then Inr fen
      else
        let board_part = parts ! 0;
            active_color = parts ! 1;
            castling = parts ! 2;
            en_passant = parts ! 3;
            halfmove = parts ! 4;
            fullmove = parts ! 5
        in case parse_board board_part of Inl e \<Rightarrow> Inl e | Inr board \<Rightarrow>
           (case check_en_passant board active_color en_passant of Inl e \<Rightarrow> Inl e
            | Inr en_passant' \<Rightarrow>
                Inr (fen_line board_part active_color castling en_passant' halfmove fullmove)))"

text \<open>Inputs of \<open>test_validation\<close> and of the script's main block.\<close>

definition problem_fen :: string where
  "problem_fen = ''rnbqkbnr/pppp1ppp/8/4p3/8/P7/1PPPPPPP/RNBQKBNR w KQkq e6 0 2''"

definition problem_fen_corrected :: string where
  "problem_fen_corrected = ''rnbqkbnr/pppp1ppp/8/4p3/8/P7/1PPPPPPP/RNBQKBNR w KQkq - 0 2''"

text \<open>
  Positions used below: a White pawn on e4 with a Black pawn on d4 only; the position after
  1.e4 e5, with the field as an external source writes it and as the validator returns it;
  the position after 1.a3 with a Black pawn on b4.
\<close>

definition fen_one_capturer :: string where
  "fen_one_capturer = ''rnbqkbnr/ppp1pppp/8/8/3pP3/8/PPPP1PPP/RNBQKBNR b KQkq e3 0 3''"

definition fen_after_e4_e5 :: string where
  "fen_after_e4_e5 = ''rnbqkbnr/pppp1ppp/8/4p3/4P3/8/PPPP1PPP/RNBQKBNR b KQkq e3 0 2''"

definition fen_after_e4_e5_corrected :: string where
  "fen_after_e4_e5_corrected = ''rnbqkbnr/pppp1ppp/8/4p3/4P3/8/PPPP1PPP/RNBQKBNR b KQkq - 0 2''"

definition fen_after_a3_b4 :: string where
  "fen_after_a3_b4 = ''rnbqkbnr/p1pppppp/8/8/1p6/P7/1PPPPPPP/RNBQKBNR b KQkq a3 0 2''"

definition fen_after_a3_b4_corrected :: string where
  "fen_after_a3_b4_corrected = ''rnbqkbnr/p1pppppp/8/8/1p6/P7/1PPPPPPP/RNBQKBNR b KQkq - 0 2''"

text \<open>The same position as \<open>fen_one_capturer\<close>, with a third character in the field.\<close>

definition fen_long_field :: string where
  "fen_long_field = ''rnbqkbnr/ppp1pppp/8/8/3pP3/8/PPPP1PPP/RNBQKBNR b KQkq e39 0 3''"

section \<open>The bishop check\<close>

text \<open>\<open>parse_fen_to_board\<close> of \<open>test_bishop_moves.py\<close>: the first field, parsed.\<close>

definition parse_fen_to_board :: "string \<Rightarrow> py_error + char list list" where
  "parse_fen_to_board fen =
     (case py_index (split_ws fen) 0 of Inl e \<Rightarrow> Inl e | Inr board_part \<Rightarrow>
      parse_board board_part)"

text \<open>\<open>files = 'abcdefgh'\<close>, and \<open>files.index(c)\<close>, which raises when \<open>c\<close> is no file.\<close>

definition files :: string where
  "files = ''abcdefgh''"

fun str_index :: "string \<Rightarrow> char \<Rightarrow> py_error + int" where
  "str_index [] c = Inl ValueError"
| "str_index (x # xs) c =
     (if x = c then Inr 0
      else (case str_index xs c of Inl e \<Rightarrow> Inl e | Inr i \<Rightarrow> Inr (i + 1)))"

text \<open>
  The second component of the returned pair is one of four messages; \<open>Path_blocked_at f r\<close>
  stands for \<open>"Path blocked at "\<close> followed by the file letter \<open>f\<close> and the number \<open>r\<close>.
\<close>

datatype reason =
    Not_a_diagonal_move
  | Path_blocked_at char int
  | Destination_occupied_by_own_piece
  | Legal_move

text \<open>
  Lines 43 and 44 (and 45 and 46) of \<open>can_bishop_move_to\<close>: the file index and the rank
  of a square, read from its first two characters.
\<close>

definition parse_square :: "string \<Rightarrow> py_error + (int \<times> int)" where
  "parse_square square =
     (case py_index square 0 of Inl e \<Rightarrow> Inl e | Inr c0 \<Rightarrow>
      case str_index files c0 of Inl e \<Rightarrow> Inl e | Inr file \<Rightarrow>
      case py_index square 1 of Inl e \<Rightarrow> Inl e | Inr c1 \<Rightarrow>
      case int_of_char c1 of Inl e \<Rightarrow> Inl e | Inr rank \<Rightarrow> Inr (file, rank))"

text \<open>
  The loop of lines 67 to 71. It stops when \<open>current_file\<close> reaches \<open>to_file\<close>; the result
  is \<open>None\<close> when it never does, \<open>Some (Inl e)\<close> when an index raises,
  \<open>Some (Inr (Some r))\<close> when the function returns \<open>r\<close> from inside the loop and
  \<open>Some (Inr None)\<close> when the loop ends.
\<close>

partial_function (option) path_loop ::
  "char list list \<Rightarrow> int \<Rightarrow> int \<Rightarrow> int \<Rightarrow> int \<Rightarrow> int
     \<Rightarrow> (py_error + (bool \<times> reason) option) option" where
  "path_loop board to_file file_step row_step current_file current_row =
     (if current_file \<noteq> to_file then
        (case cell board current_row current_file of
           Inl e \<Rightarrow> Some (Inl e)
         | Inr p \<Rightarrow>
             if p \<noteq> CHR ''.'' then
               (case py_index files current_file of
                  Inl e \<Rightarrow> Some (Inl e)
                | Inr f \<Rightarrow> Some (Inr (Some (False, Path_blocked_at f (8 - current_row)))))
             else path_loop board to_file file_step row_step
                    (current_file + file_step) (current_row + row_step))
      else Some (Inr None))"

declare path_loop.simps [code]

text \<open>\<open>can_bishop_move_to(board, from_square, to_square, color)\<close>.\<close>

definition can_bishop_move_to ::
  "char list list \<Rightarrow> string \<Rightarrow> string \<Rightarrow> string \<Rightarrow> (py_error + bool \<times> reason) option" where
  "can_bishop_move_to board from_square to_square color =
     (case parse_square from_square of Inl e \<Rightarrow> Some (Inl e) | Inr (from_file, from_rank) \<Rightarrow>
      case parse_square to_square of Inl e \<Rightarrow> Some (Inl e) | Inr (to_file, to_rank) \<Rightarrow>
      let from_row = 8 - from_rank;
          to_row = 8 - to_rank;
          file_diff = \<bar>to_file - from_file\<bar>;
          rank_diff = \<bar>to_rank - from_rank\<bar>
      in
      if file_diff \<noteq> rank_diff \<or> file_diff = 0 then Some (Inr (False, Not_a_diagonal_move))
      else
        let file_step = (if to_file > from_file then 1 else - 1);
            rank_step = (if to_rank > from_rank then 1 else - 1);
            row_step = - rank_step
        in
        case path_loop board to_file file_step row_step
               (from_file + file_step) (from_row + row_step) of
          None \<Rightarrow> None
        | Some (Inl e) \<Rightarrow> Some (Inl e)
        | Some (Inr (Some blocked)) \<Rightarrow> Some (Inr blocked)
        | Some (Inr None) \<Rightarrow>
            (case cell board to_row to_file of Inl e \<Rightarrow> Some (Inl e) | Inr dest_piece \<Rightarrow>
             if dest_piece \<noteq> CHR ''.'' then
               (if color = ''white'' \<and> isupper dest_piece then
                  Some (Inr (False, Destination_occupied_by_own_piece))
                else if color = ''black'' \<and> islower dest_piece then
                  Some (Inr (False, Destination_occupied_by_own_piece))
                else Some (Inr (True, Legal_move)))
             else Some (Inr (True, Legal_move))))"

section \<open>The pawn move generator\<close>

text \<open>\<open>str(i)\<close> of an integer, as the f-strings format it.\<close>

fun str_nat :: "nat \<Rightarrow> string" where
  "str_nat n =
     (if n < 10 then [char_of (48 + n)] else str_nat (n div 10) @ [char_of (48 + n mod 10)])"

declare str_nat.simps [simp del]

definition str_int :: "int \<Rightarrow> string" where
  "str_int i = (if i < 0 then CHR ''-'' # str_nat (nat (- i)) else str_nat (nat i))"

text \<open>
  Lines 61 to 78 of \<open>analyze_pawn_moves\<close>: the moves appended to \<open>valid_moves\<close> while
  the two loops are at \<open>(rank_idx, file_idx)\<close>. The printed lines are left out.
\<close>

definition pawn_moves_at :: "char list list \<Rightarrow> string \<Rightarrow> int \<Rightarrow> int \<Rightarrow> py_error + string list" where
  "pawn_moves_at board color rank_idx file_idx =
     (let pawn = (if color = ''white'' then CHR ''P'' else CHR ''p'');
          direction = (if color = ''white'' then - 1 else 1);
          start_rank = (if color = ''white'' then 6 else 1)
      in
      case cell board rank_idx file_idx of Inl e \<Rightarrow> Inl e | Inr p \<Rightarrow>
      if p = pawn then
        (case py_index files file_idx of Inl e \<Rightarrow> Inl e | Inr file \<Rightarrow>
         let new_rank_idx = rank_idx + direction in
         if 0 \<le> new_rank_idx \<and> new_rank_idx < 8 then
           (case cell board new_rank_idx file_idx of Inl e \<Rightarrow> Inl e | Inr q \<Rightarrow>
            if q = CHR ''.'' then
              (let move = file # str_int (8 - new_rank_idx) in
               if rank_idx = start_rank then
                 (let two_forward = rank_idx + 2 * direction in
                  case cell board two_forward file_idx of Inl e \<Rightarrow> Inl e | Inr t \<Rightarrow>
                  if t = CHR ''.'' then Inr [move, file # str_int (8 - two_forward)]
                  else Inr [move])
               else Inr [move])
            else Inr [])
         else Inr [])
      else Inr [])"

text \<open>The two loops over \<open>range(8)\<close>, rank index outermost.\<close>

fun scan_squares ::
  "char list list \<Rightarrow> string \<Rightarrow> string list \<Rightarrow> (int \<times> int) list \<Rightarrow> py_error + string list" where
  "scan_squares board color valid_moves [] = Inr valid_moves"
| "scan_squares board color valid_moves ((rank_idx, file_idx) # rest) =
     (case pawn_moves_at board color rank_idx file_idx of
        Inl e \<Rightarrow> Inl e
      | Inr moves \<Rightarrow> scan_squares board color (valid_moves @ moves) rest)"

definition analyze_pawn_moves :: "char list list \<Rightarrow> string \<Rightarrow> py_error + string list" where
  "analyze_pawn_moves board color =
     scan_squares board color [] (List.product [0..7] [0..7])"

section \<open>Notions used to state the results\<close>

text \<open>A field of \<open>s.split()\<close> is not empty and holds no whitespace.\<close>

definition is_field :: "string \<Rightarrow> bool" where
  "is_field p = (p \<noteq> [] \<and> (\<forall>c\<in>set p. \<not> isspace c))"

text \<open>A board of eight ranks of eight cells.\<close>

definition full_board :: "char list list \<Rightarrow> bool" where
  "full_board board = (length board = 8 \<and> (\<forall>row\<in>set board. length row = 8))"

text \<open>
  The condition under which the en-passant square with file letter \<open>fc\<close> and rank digit
  \<open>rc\<close> is kept, stated on the position: the side to move is not White, the square is on
  rank 3, a White pawn stands on rank 4 in the square's file and a Black pawn stands on
  rank 4 in at least one adjacent file; or the same with the colours exchanged, rank 6
  and rank 5.
\<close>

definition spec_en_passant_keeps :: "char list list \<Rightarrow> string \<Rightarrow> char \<Rightarrow> char \<Rightarrow> bool" where
  "spec_en_passant_keeps board active_color fc rc =
     (let f = ord fc - ord (CHR ''a'') in
      (active_color \<noteq> ''w'' \<and> rc = CHR ''3'' \<and> cell board 4 f = Inr (CHR ''P'')
         \<and> ((0 < f \<and> cell board 4 (f - 1) = Inr (CHR ''p''))
            \<or> (f < 7 \<and> cell board 4 (f + 1) = Inr (CHR ''p''))))
      \<or> (active_color = ''w'' \<and> rc = CHR ''6'' \<and> cell board 3 f = Inr (CHR ''p'')
         \<and> ((0 < f \<and> cell board 3 (f - 1) = Inr (CHR ''P''))
            \<or> (f < 7 \<and> cell board 3 (f + 1) = Inr (CHR ''P'')))))"

text \<open>
  The content of the square in file \<open>file\<close> (0 for a, up to 7 for h) and rank \<open>rank\<close>
  (1 to 8) of a full board: the board lists rank 8 first.
\<close>

definition piece_at :: "char list list \<Rightarrow> int \<Rightarrow> int \<Rightarrow> char" where
  "piece_at board file rank = board ! nat (8 - rank) ! nat file"

text \<open>A piece of the mover's own colour, as lines 76 and 78 test it.\<close>

definition own_piece :: "string \<Rightarrow> char \<Rightarrow> bool" where
  "own_piece color p = (color = ''white'' \<and> isupper p \<or> color = ''black'' \<and> islower p)"

text \<open>
  What the loop of \<open>can_bishop_move_to\<close> returns from inside when it visits \<open>n\<close> squares
  of a full board, starting at \<open>(cf, cr)\<close>: the first occupied square, if there is one.
\<close>

fun first_blocked ::
  "char list list \<Rightarrow> int \<Rightarrow> int \<Rightarrow> int \<Rightarrow> int \<Rightarrow> nat \<Rightarrow> (bool \<times> reason) option" where
  "first_blocked board file_step row_step cf cr 0 = None"
| "first_blocked board file_step row_step cf cr (Suc n) =
     (if board ! nat cr ! nat cf \<noteq> CHR ''.''
      then Some (False, Path_blocked_at (files ! nat cf) (8 - cr))
      else first_blocked board file_step row_step (cf + file_step) (cr + row_step) n)"

text \<open>
  Boards of the positions used in \<open>test_bishop_scenarios\<close> and \<open>analyze_be2_problem\<close>:
  after 1.e4 e5, after 1.e3, and with the bishop on c4.
\<close>

definition board_after_e4_e5 :: "char list list" where
  "board_after_e4_e5 =
     [''rnbqkbnr'', ''pppp.ppp'', ''........'', ''....p...'',
      ''....P...'', ''........'', ''PPPP.PPP'', ''RNBQKBNR'']"

definition board_after_e3 :: "char list list" where
  "board_after_e3 =
     [''rnbqkbnr'', ''pppppppp'', ''........'', ''........'',
      ''........'', ''....P...'', ''PPPP.PPP'', ''RNBQKBNR'']"

definition board_bishop_c4 :: "char list list" where
  "board_bishop_c4 =
     [''rnbqkbnr'', ''pppp.ppp'', ''........'', ''....p...'',
      ''..B.P...'', ''.....N..'', ''PPPP.PPP'', ''RNBQK..R'']"

text \<open>The board of \<open>problem_fen\<close>, the position after 1.a3 e5.\<close>

definition board_after_a3_e5 :: "char list list" where
  "board_after_a3_e5 =
     [''rnbqkbnr'', ''pppp.ppp'', ''........'', ''....p...'',
      ''........'', ''P.......'', ''.PPPPPPP'', ''RNBQKBNR'']"

text \<open>A board with White pawns on b2 and b3, and the state string it is parsed from.\<close>

definition fen_doubled_pawns :: string where
  "fen_doubled_pawns = ''rnbqkbnr/pppppppp/8/8/8/1P6/PP1PPPPP/RNBQKBNR w KQkq - 0 3''"

definition board_doubled_pawns :: "char list list" where
  "board_doubled_pawns =
     [''rnbqkbnr'', ''pppppppp'', ''........'', ''........'',
      ''........'', ''.P......'', ''PP.PPPPP'', ''RNBQKBNR'']"

section \<open>Fields of a split string\<close>

lemma split_acc_fields:
  "(\<forall>c\<in>set cur. \<not> isspace c) \<Longrightarrow> p \<in> set (split_acc cur s) \<Longrightarrow> is_field p"
proof (induction s arbitrary: cur)
  case Nil
  then show ?case by (auto simp: is_field_def split: if_splits)
next
  case (Cons a s)
  show ?case
  proof (cases "isspace a")
    case True
    with Cons.prems have "p = cur \<and> cur \<noteq> [] \<or> p \<in> set (split_acc [] s)"
      by (auto split: if_splits)
    then show ?thesis
    proof
      assume "p = cur \<and> cur \<noteq> []"
      with Cons.prems(1) show ?thesis by (simp add: is_field_def)
    next
      assume "p \<in> set (split_acc [] s)"
      then show ?thesis using Cons.IH[of "[]"] by simp
    qed
  next
    case False
    with Cons.prems have "p \<in> set (split_acc (cur @ [a]) s)" by simp
    moreover have "\<forall>c\<in>set (cur @ [a]). \<not> isspace c" using Cons.prems(1) False by simp
    ultimately show ?thesis using Cons.IH[of "cur @ [a]"] by blast
  qed
qed

lemma split_ws_fields: "p \<in> set (split_ws s) \<Longrightarrow> is_field p"
  unfolding split_ws_def by (rule split_acc_fields[of "[]"]) auto

lemma split_acc_word:
  "(\<forall>c\<in>set w. \<not> isspace c) \<Longrightarrow> split_acc cur (w @ rest) = split_acc (cur @ w) rest"
  by (induction w arbitrary: cur) auto

lemma isspace_space: "isspace (CHR '' '')"
  by (simp add: isspace_def ord_def)

lemma split_acc_field_space:
  "is_field a \<Longrightarrow> split_acc [] (a @ CHR '' '' # rest) = a # split_acc [] rest"
  by (simp add: split_acc_word is_field_def isspace_space)

lemma split_acc_field_end: "is_field a \<Longrightarrow> split_acc [] a = [a]"
  using split_acc_word[of a "[]" "[]"] by (simp add: is_field_def)

lemma split_ws_fen_line:
  "is_field a \<Longrightarrow> is_field b \<Longrightarrow> is_field c \<Longrightarrow> is_field d \<Longrightarrow> is_field e \<Longrightarrow> is_field f
   \<Longrightarrow> split_ws (fen_line a b c d e f) = [a, b, c, d, e, f]"
  by (simp add: split_ws_def fen_line_def split_acc_field_space split_acc_field_end)

lemma is_field_dash: "is_field ''-''"
  by (simp add: is_field_def isspace_def ord_def)

lemma length6E:
  assumes "length xs = 6"
  obtains a b c d e f where "xs = [a, b, c, d, e, f]"
  using assms by (auto simp: length_Suc_conv eval_nat_numeral)

section \<open>The validator on six fields\<close>

lemma check_en_passant_cases:
  "check_en_passant board ac ep = Inr ep' \<Longrightarrow> ep' = ep \<or> ep' = ''-''"
  by (auto simp: check_en_passant_def split: if_splits sum.splits)

lemma check_en_passant_again:
  "check_en_passant board ac ep = Inr ep' \<Longrightarrow> check_en_passant board ac ep' = Inr ep'"
  by (auto simp: check_en_passant_def split: if_splits sum.splits)

lemma validate_six:
  assumes "split_ws fen = [bp, ac, ca, ep, hm, fm]"
  shows "validate_en_passant fen lm =
     (case parse_board bp of Inl e \<Rightarrow> Inl e | Inr board \<Rightarrow>
        (case check_en_passant board ac ep of Inl e \<Rightarrow> Inl e
         | Inr ep' \<Rightarrow> Inr (fen_line bp ac ca ep' hm fm)))"
  using assms by (simp add: validate_en_passant_def split: sum.splits)

lemma validate_six_Inr:
  assumes six: "split_ws fen = [bp, ac, ca, ep, hm, fm]"
    and out: "validate_en_passant fen lm = Inr out"
  obtains board ep' where "parse_board bp = Inr board"
    and "check_en_passant board ac ep = Inr ep'"
    and "out = fen_line bp ac ca ep' hm fm"
    and "split_ws out = [bp, ac, ca, ep', hm, fm]"
proof -
  from out obtain board ep' where b: "parse_board bp = Inr board"
    and c: "check_en_passant board ac ep = Inr ep'"
    and o: "out = fen_line bp ac ca ep' hm fm"
    unfolding validate_six[OF six] by (auto split: sum.splits)
  have f: "is_field bp" "is_field ac" "is_field ca" "is_field ep" "is_field hm" "is_field fm"
    using split_ws_fields[of _ fen] six by simp_all
  have "is_field ep'"
    using check_en_passant_cases[OF c] f(4) is_field_dash by auto
  then have "split_ws out = [bp, ac, ca, ep', hm, fm]"
    unfolding o using f by (simp add: split_ws_fen_line)
  with b c o show ?thesis using that by blast
qed

section \<open>The value of \<open>valid\<close>\<close>

lemma ord_inj: "ord c = ord d \<Longrightarrow> c = d"
  by (simp add: ord_def)

lemma ord_3: "ord c = 51 \<longleftrightarrow> c = CHR ''3''"
  using ord_inj[of c "CHR ''3''"] by (auto simp: ord_def)

lemma ord_6: "ord c = 54 \<longleftrightarrow> c = CHR ''6''"
  using ord_inj[of c "CHR ''6''"] by (auto simp: ord_def)

lemma file_char_range: "fc \<in> set ''abcdefgh'' \<Longrightarrow> 0 \<le> ord fc - ord (CHR ''a'') \<and> ord fc - ord (CHR ''a'') < 8"
  by (auto simp: ord_def)

lemma rank_char_int: "rc \<in> set ''12345678'' \<Longrightarrow> int_of_char rc = Inr (ord rc - 48)"
  by (auto simp: int_of_char_def ord_def)

lemma py_index_pair: "py_index [a, b] 0 = Inr a" "py_index [a, b] 1 = Inr b"
  by (simp_all add: py_index_def)

lemma cell_pred:
  assumes "cell board r f = Inr p" "0 < f"
  shows "\<exists>q. cell board r (f - 1) = Inr q"
  using assms by (auto simp: cell_def py_index_def split: sum.splits if_splits)

lemma en_passant_valid_square:
  assumes fc: "fc \<in> set ''abcdefgh''" and rc: "rc \<in> set ''12345678''"
    and ret: "en_passant_valid board ac [fc, rc] = Inr v"
  shows "v = spec_en_passant_keeps board ac fc rc"
proof -
  define f where "f = ord fc - ord (CHR ''a'')"
  have fr: "0 \<le> f" "f < 8" using file_char_range[OF fc] by (simp_all add: f_def)
  have r3: "(ord rc - 48 = 3) = (rc = CHR ''3'')" using ord_3[of rc] by auto
  have r6: "(ord rc - 48 = 6) = (rc = CHR ''6'')" using ord_6[of rc] by auto
  show ?thesis
    using ret fr
    unfolding en_passant_valid_def spec_en_passant_keeps_def py_index_pair rank_char_int[OF rc]
      Let_def f_def[symmetric] sum.case r3 r6
    by (auto split: if_splits sum.splits dest: cell_pred)
qed

lemma cell_full:
  assumes "full_board board" "0 \<le> r" "r < 8" "0 \<le> c" "c < 8"
  shows "cell board r c = Inr (board ! nat r ! nat c)"
proof -
  from assms have "py_index board r = Inr (board ! nat r)"
    by (simp add: py_index_def full_board_def)
  moreover from assms have "length (board ! nat r) = 8"
    by (simp add: full_board_def)
  ultimately show ?thesis using assms by (simp add: cell_def py_index_def)
qed

lemma en_passant_valid_full:
  assumes fb: "full_board board"
    and fc: "fc \<in> set ''abcdefgh''" and rc: "rc \<in> set ''12345678''"
  shows "\<exists>v. en_passant_valid board ac [fc, rc] = Inr v"
proof -
  define f where "f = ord fc - ord (CHR ''a'')"
  have fr: "0 \<le> f" "f < 8" using file_char_range[OF fc] by (simp_all add: f_def)
  show ?thesis
    unfolding en_passant_valid_def py_index_pair rank_char_int[OF rc]
      Let_def f_def[symmetric] sum.case
    using fr by (auto simp: cell_full[OF fb])
qed

lemma py_index_0: "py_index xs 0 = Inr c \<Longrightarrow> xs \<noteq> [] \<and> c = xs ! 0"
  by (auto simp: py_index_def split: if_splits)

lemma py_index_1: "py_index xs 1 = Inr c \<Longrightarrow> 2 \<le> length xs \<and> c = xs ! 1"
  by (auto simp: py_index_def split: if_splits)

lemma int_of_char_3: "int_of_char c = Inr 3 \<Longrightarrow> c = CHR ''3''"
  using ord_3[of c] by (auto simp: int_of_char_def split: if_splits)

lemma int_of_char_6: "int_of_char c = Inr 6 \<Longrightarrow> c = CHR ''6''"
  using ord_6[of c] by (auto simp: int_of_char_def split: if_splits)

lemma file_char_of_idx:
  assumes "0 \<le> ord c - ord (CHR ''a'')" "ord c - ord (CHR ''a'') < 8"
  shows "c \<in> set ''abcdefgh''"
proof -
  have "ord c \<in> {97, 98, 99, 100, 101, 102, 103, 104}"
    using assms by (auto simp: ord_def)
  then have "ord c \<in> ord ` set ''abcdefgh''"
    by (auto simp: ord_def)
  then show ?thesis using ord_inj by auto
qed

lemma en_passant_valid_True:
  assumes "en_passant_valid board ac ep = Inr True"
  shows "2 \<le> length ep \<and> ep ! 0 \<in> set ''abcdefgh''
         \<and> ep ! 1 = (if ac = ''w'' then CHR ''6'' else CHR ''3'')"
proof -
  from assms obtain c0 c1 rank where i0: "py_index ep 0 = Inr c0"
    and i1: "py_index ep 1 = Inr c1" and r: "int_of_char c1 = Inr rank"
    by (auto simp: en_passant_valid_def Let_def split: sum.splits)
  have rest: "(ac \<noteq> ''w'' \<and> rank = 3 \<or> ac = ''w'' \<and> rank = 6)
     \<and> 0 \<le> ord c0 - ord (CHR ''a'') \<and> ord c0 - ord (CHR ''a'') < 8"
    using assms unfolding en_passant_valid_def i0 i1 r sum.case Let_def
    by (simp split: if_splits)
  from rest r have "c1 = (if ac = ''w'' then CHR ''6'' else CHR ''3'')"
    by (auto dest: int_of_char_3 int_of_char_6)
  moreover from rest have "c0 \<in> set ''abcdefgh''" by (intro file_char_of_idx) auto
  ultimately show ?thesis using py_index_0[OF i0] py_index_1[OF i1] by simp
qed

lemma check_en_passant_kept:
  assumes "check_en_passant board ac ep = Inr ep'" "ep' \<noteq> ''-''"
  shows "ep' = ep \<and> en_passant_valid board ac ep = Inr True"
  using assms by (auto simp: check_en_passant_def split: if_splits sum.splits)

lemma validate_square:
  assumes six: "split_ws fen = [bp, ac, ca, [fc, rc], hm, fm]"
    and board: "parse_board bp = Inr board"
  shows "validate_en_passant fen lm =
     (case en_passant_valid board ac [fc, rc] of Inl e \<Rightarrow> Inl e
      | Inr valid \<Rightarrow> Inr (fen_line bp ac ca (if \<not> valid then ''-'' else [fc, rc]) hm fm))"
  unfolding validate_six[OF six] board check_en_passant_def
  by (simp split: sum.splits)

lemma validate_square_full:
  assumes six: "split_ws fen = [bp, ac, ca, [fc, rc], hm, fm]"
    and board: "parse_board bp = Inr board" and fb: "full_board board"
    and fc: "fc \<in> set ''abcdefgh''" and rc: "rc \<in> set ''12345678''"
  shows "validate_en_passant fen lm =
     Inr (fen_line bp ac ca
            (if spec_en_passant_keeps board ac fc rc then [fc, rc] else ''-'') hm fm)"
proof -
  from en_passant_valid_full[OF fb fc rc, of ac] obtain w
    where w: "en_passant_valid board ac [fc, rc] = Inr w" by blast
  from en_passant_valid_square[OF fc rc w] w show ?thesis
    unfolding validate_square[OF six board] by simp
qed

section \<open>Input that is not six fields\<close>

text \<open>
  C5, as the code has it: an input that does not split into exactly six
  whitespace-separated fields is not rejected. No exception is raised, no board is
  parsed, and the input string itself is returned, unchanged.
\<close>

theorem validate_en_passant_not_six_fields:
  "length (split_ws fen) \<noteq> 6 \<Longrightarrow> validate_en_passant fen last_move = Inr fen"
  by (simp add: validate_en_passant_def)

theorem validate_en_passant_not_six_fields_witness:
  "length (split_ws ''rnbqkbnr/pppppppp/8/8/8/8/PPPPPPPP/RNBQKBNR w KQkq - 0'') \<noteq> 6
   \<and> validate_en_passant ''rnbqkbnr/pppppppp/8/8/8/8/PPPPPPPP/RNBQKBNR w KQkq - 0'' None
       = Inr ''rnbqkbnr/pppppppp/8/8/8/8/PPPPPPPP/RNBQKBNR w KQkq - 0''"
proof -
  have h: "length (split_ws ''rnbqkbnr/pppppppp/8/8/8/8/PPPPPPPP/RNBQKBNR w KQkq - 0'') \<noteq> 6"
    by code_simp
  show ?thesis
    using h validate_en_passant_not_six_fields[OF h, of None] by simp
qed

text \<open>
  C5 as the claim states it fails: a five-field string (the fullmove number is missing) does not
  split into six fields, and the validator returns it as a result instead of failing.
\<close>

theorem validate_en_passant_malformed_counterexample:
  "length (split_ws ''8/8/8/8/8/8/8/8 w - - 0'') \<noteq> 6
   \<and> validate_en_passant ''8/8/8/8/8/8/8/8 w - - 0'' None = Inr ''8/8/8/8/8/8/8/8 w - - 0''
   \<and> \<not> isl (validate_en_passant ''8/8/8/8/8/8/8/8 w - - 0'' None)"
  by code_simp

section \<open>Frame and idempotence\<close>

text \<open>
  C9: on an input of exactly six fields for which the validator returns a string, that
  string again splits into six fields; every field other than the fourth is the input's
  field, and the fourth is either the input's en-passant field or \<open>'-'\<close>.
\<close>

theorem validate_en_passant_frame:
  assumes "length (split_ws fen) = 6"
    and "validate_en_passant fen last_move = Inr out"
  shows "length (split_ws out) = 6
     \<and> split_ws out ! 0 = split_ws fen ! 0
     \<and> split_ws out ! 1 = split_ws fen ! 1
     \<and> split_ws out ! 2 = split_ws fen ! 2
     \<and> split_ws out ! 4 = split_ws fen ! 4
     \<and> split_ws out ! 5 = split_ws fen ! 5
     \<and> (split_ws out ! 3 = split_ws fen ! 3 \<or> split_ws out ! 3 = ''-'')"
proof -
  from assms(1) obtain bp ac ca ep hm fm where six: "split_ws fen = [bp, ac, ca, ep, hm, fm]"
    by (rule length6E)
  from six assms(2) obtain board ep' where c: "check_en_passant board ac ep = Inr ep'"
    and s: "split_ws out = [bp, ac, ca, ep', hm, fm]"
    by (rule validate_six_Inr)
  from check_en_passant_cases[OF c] show ?thesis
    unfolding s six by simp
qed

theorem validate_en_passant_frame_witness:
  "length (split_ws problem_fen) = 6
   \<and> validate_en_passant problem_fen None = Inr problem_fen_corrected
   \<and> length (split_ws problem_fen_corrected) = 6
   \<and> split_ws problem_fen_corrected ! 0 = split_ws problem_fen ! 0
   \<and> split_ws problem_fen_corrected ! 1 = split_ws problem_fen ! 1
   \<and> split_ws problem_fen_corrected ! 2 = split_ws problem_fen ! 2
   \<and> split_ws problem_fen_corrected ! 4 = split_ws problem_fen ! 4
   \<and> split_ws problem_fen_corrected ! 5 = split_ws problem_fen ! 5
   \<and> (split_ws problem_fen_corrected ! 3 = split_ws problem_fen ! 3
       \<or> split_ws problem_fen_corrected ! 3 = ''-'')"
proof -
  have h1: "length (split_ws problem_fen) = 6" by code_simp
  have h2: "validate_en_passant problem_fen None = Inr problem_fen_corrected" by code_simp
  show ?thesis
    using h1 h2 validate_en_passant_frame[OF h1 h2] by simp
qed

text \<open>
  C8: the validator is a function of its first argument alone, and running it on its own
  result changes nothing. When the first run raises, so does the composition, with the
  same exception.
\<close>

theorem validate_en_passant_idempotent:
  "validate_en_passant fen lm = validate_en_passant fen lm'
   \<and> (case validate_en_passant fen lm of
         Inl e \<Rightarrow> Inl e
       | Inr out \<Rightarrow> validate_en_passant out lm') = validate_en_passant fen lm"
proof
  show "validate_en_passant fen lm = validate_en_passant fen lm'"
    by (simp add: validate_en_passant_def)
next
  show "(case validate_en_passant fen lm of
           Inl e \<Rightarrow> Inl e
         | Inr out \<Rightarrow> validate_en_passant out lm') = validate_en_passant fen lm"
  proof (cases "validate_en_passant fen lm")
    case (Inl e)
    then show ?thesis by simp
  next
    case (Inr out)
    have "validate_en_passant out lm' = Inr out"
    proof (cases "length (split_ws fen) = 6")
      case False
      with Inr have "out = fen" by (simp add: validate_en_passant_def)
      with False show ?thesis by (simp add: validate_en_passant_def)
    next
      case True
      then obtain bp ac ca ep hm fm where six: "split_ws fen = [bp, ac, ca, ep, hm, fm]"
        by (rule length6E)
      from six Inr obtain board ep' where b: "parse_board bp = Inr board"
        and c: "check_en_passant board ac ep = Inr ep'"
        and o: "out = fen_line bp ac ca ep' hm fm"
        and s: "split_ws out = [bp, ac, ca, ep', hm, fm]"
        by (rule validate_six_Inr)
      show ?thesis
        unfolding validate_six[OF s] using b check_en_passant_again[OF c] o by simp
    qed
    with Inr show ?thesis by simp
  qed
qed

section \<open>Which squares are kept\<close>

text \<open>
  The second case of \<open>test_validation\<close> gives the side to move as \<open>b\<close> with the field e6
  and expects e6 back; the validator returns \<open>'-'\<close>, because with \<open>b\<close> to move it accepts
  rank 3 only. With \<open>w\<close> to move, as after Black's advance to e5, the same position keeps
  e6.
\<close>

lemma test_validation_case_2:
  "validate_en_passant ''rnbqkbnr/pppp1ppp/8/3Pp3/8/8/PPP1PPPP/RNBQKBNR b KQkq e6 0 2'' None
     = Inr ''rnbqkbnr/pppp1ppp/8/3Pp3/8/8/PPP1PPPP/RNBQKBNR b KQkq - 0 2''"
  "validate_en_passant ''rnbqkbnr/pppp1ppp/8/3Pp3/8/8/PPP1PPPP/RNBQKBNR w KQkq e6 0 2'' None
     = Inr ''rnbqkbnr/pppp1ppp/8/3Pp3/8/8/PPP1PPPP/RNBQKBNR w KQkq e6 0 2''"
  by code_simp+

lemma first_two:
  assumes "2 \<le> length xs"
  shows "xs = xs ! 0 # xs ! 1 # drop 2 xs"
proof -
  from assms obtain a b rest where "xs = a # b # rest"
    by (cases xs; cases "tl xs") auto
  then show ?thesis by simp
qed

text \<open>
  C6, as the code has it. On an input of six fields for which the validator returns a
  string, the en-passant field of that string is \<open>'-'\<close>, or it is the input's field
  unchanged and starts with a file letter \<open>a\<close> to \<open>h\<close> followed by the rank digit 6 when
  the side to move is \<open>w\<close> (Black has just moved) and by the rank digit 3 otherwise
  (White has just moved). The validator reads these two characters only and writes the
  field back whole, so whatever follows them is kept; when the input's field has two
  characters the output's field is exactly the name of a square on that rank.
\<close>

theorem validate_en_passant_kept_field:
  assumes "length (split_ws fen) = 6"
    and "validate_en_passant fen last_move = Inr out"
  shows "split_ws out ! 3 = ''-''
     \<or> (split_ws out ! 3 = split_ws fen ! 3
        \<and> (\<exists>fc rest. fc \<in> set ''abcdefgh''
              \<and> split_ws out ! 3
                  = fc # (if split_ws out ! 1 = ''w'' then CHR ''6'' else CHR ''3'') # rest
              \<and> (length (split_ws fen ! 3) = 2 \<longrightarrow> rest = [])))"
proof -
  from assms(1) obtain bp ac ca ep hm fm where six: "split_ws fen = [bp, ac, ca, ep, hm, fm]"
    by (rule length6E)
  from six assms(2) obtain board ep' where c: "check_en_passant board ac ep = Inr ep'"
    and s: "split_ws out = [bp, ac, ca, ep', hm, fm]"
    by (rule validate_six_Inr)
  show ?thesis
  proof (cases "ep' = ''-''")
    case True
    then show ?thesis by (simp add: s)
  next
    case False
    from check_en_passant_kept[OF c False] have same: "ep' = ep"
      and v: "en_passant_valid board ac ep = Inr True" by simp_all
    from en_passant_valid_True[OF v] have len: "2 \<le> length ep"
      and fc: "ep ! 0 \<in> set ''abcdefgh''"
      and rc: "ep ! 1 = (if ac = ''w'' then CHR ''6'' else CHR ''3'')" by simp_all
    from first_two[OF len] rc
    have shape: "ep = ep ! 0 # (if ac = ''w'' then CHR ''6'' else CHR ''3'') # drop 2 ep"
      by simp
    have "length ep = 2 \<longrightarrow> drop 2 ep = []" by simp
    with fc shape have "\<exists>fc rest. fc \<in> set ''abcdefgh''
        \<and> ep = fc # (if ac = ''w'' then CHR ''6'' else CHR ''3'') # rest
        \<and> (length ep = 2 \<longrightarrow> rest = [])"
      by blast
    with same show ?thesis by (simp add: s six)
  qed
qed

theorem validate_en_passant_kept_field_witness:
  "length (split_ws fen_one_capturer) = 6
   \<and> validate_en_passant fen_one_capturer None = Inr fen_one_capturer
   \<and> split_ws fen_one_capturer ! 3 = ''e3''
   \<and> split_ws fen_one_capturer ! 1 = ''b''
   \<and> (split_ws fen_one_capturer ! 3 = ''-''
       \<or> (split_ws fen_one_capturer ! 3 = split_ws fen_one_capturer ! 3
          \<and> (\<exists>fc rest. fc \<in> set ''abcdefgh''
                \<and> split_ws fen_one_capturer ! 3
                    = fc # (if split_ws fen_one_capturer ! 1 = ''w'' then CHR ''6''
                            else CHR ''3'') # rest
                \<and> (length (split_ws fen_one_capturer ! 3) = 2 \<longrightarrow> rest = []))))"
proof -
  have h1: "length (split_ws fen_one_capturer) = 6" by code_simp
  have h2: "validate_en_passant fen_one_capturer None = Inr fen_one_capturer" by code_simp
  have h3: "split_ws fen_one_capturer ! 3 = ''e3''" by code_simp
  have h4: "split_ws fen_one_capturer ! 1 = ''b''" by code_simp
  show ?thesis
    using h1 h2 h3 h4 validate_en_passant_kept_field[OF h1 h2] by blast
qed

text \<open>
  C6 as the claim states it fails: with the field e39 the first two characters pass the
  test, and the field is returned whole; e39 is not \<open>'-'\<close> and names no square.
\<close>

theorem validate_en_passant_long_field_counterexample:
  "length (split_ws fen_long_field) = 6
   \<and> validate_en_passant fen_long_field None = Inr fen_long_field
   \<and> split_ws fen_long_field ! 3 = ''e39''
   \<and> length (split_ws fen_long_field ! 3) = 3"
  by code_simp

text \<open>
  C1, as the code has it. The input has six fields, its placement field parses to a
  board, and its en-passant field is a file letter and a rank digit. Whenever the
  validator returns, the square is kept exactly under the condition
  \<^const>\<open>spec_en_passant_keeps\<close>, where a pawn of the other side on one adjacent file is
  enough, and the field is \<open>'-'\<close> in every other case. On a board of eight ranks of eight
  cells the validator does return. The validator is given no move: that a pawn has
  advanced two ranks is tested as a pawn of the side that moved standing on rank 4
  (White) or rank 5 (Black) in the file of the square.
\<close>

theorem validate_en_passant_keeps_square:
  assumes six: "split_ws fen = [bp, ac, ca, [fc, rc], hm, fm]"
    and board: "parse_board bp = Inr board"
    and fc: "fc \<in> set ''abcdefgh''" and rc: "rc \<in> set ''12345678''"
  shows "(validate_en_passant fen last_move = Inr out \<longrightarrow>
            out = fen_line bp ac ca
                    (if spec_en_passant_keeps board ac fc rc then [fc, rc] else ''-'') hm fm)
     \<and> (full_board board \<longrightarrow>
            validate_en_passant fen last_move
              = Inr (fen_line bp ac ca
                      (if spec_en_passant_keeps board ac fc rc then [fc, rc] else ''-'') hm fm))"
proof (intro conjI impI)
  assume "validate_en_passant fen last_move = Inr out"
  then show "out = fen_line bp ac ca
      (if spec_en_passant_keeps board ac fc rc then [fc, rc] else ''-'') hm fm"
    unfolding validate_square[OF six board]
    using en_passant_valid_square[OF fc rc, of board ac]
    by (auto split: sum.splits)
next
  assume "full_board board"
  then show "validate_en_passant fen last_move
      = Inr (fen_line bp ac ca
              (if spec_en_passant_keeps board ac fc rc then [fc, rc] else ''-'') hm fm)"
    by (rule validate_square_full[OF six board _ fc rc])
qed

theorem validate_en_passant_keeps_square_witness:
  "split_ws fen_one_capturer
     = [''rnbqkbnr/ppp1pppp/8/8/3pP3/8/PPPP1PPP/RNBQKBNR'', ''b'', ''KQkq'',
        [CHR ''e'', CHR ''3''], ''0'', ''3'']
   \<and> parse_board ''rnbqkbnr/ppp1pppp/8/8/3pP3/8/PPPP1PPP/RNBQKBNR''
       = Inr [''rnbqkbnr'', ''ppp.pppp'', ''........'', ''........'', ''...pP...'',
              ''........'', ''PPPP.PPP'', ''RNBQKBNR'']
   \<and> CHR ''e'' \<in> set ''abcdefgh'' \<and> CHR ''3'' \<in> set ''12345678''
   \<and> full_board [''rnbqkbnr'', ''ppp.pppp'', ''........'', ''........'', ''...pP...'',
                  ''........'', ''PPPP.PPP'', ''RNBQKBNR'']
   \<and> spec_en_passant_keeps
        [''rnbqkbnr'', ''ppp.pppp'', ''........'', ''........'', ''...pP...'',
         ''........'', ''PPPP.PPP'', ''RNBQKBNR''] ''b'' (CHR ''e'') (CHR ''3'')
   \<and> validate_en_passant fen_one_capturer None = Inr fen_one_capturer"
proof -
  have six: "split_ws fen_one_capturer
     = [''rnbqkbnr/ppp1pppp/8/8/3pP3/8/PPPP1PPP/RNBQKBNR'', ''b'', ''KQkq'',
        [CHR ''e'', CHR ''3''], ''0'', ''3'']" by code_simp
  have board: "parse_board ''rnbqkbnr/ppp1pppp/8/8/3pP3/8/PPPP1PPP/RNBQKBNR''
       = Inr [''rnbqkbnr'', ''ppp.pppp'', ''........'', ''........'', ''...pP...'',
              ''........'', ''PPPP.PPP'', ''RNBQKBNR'']" by code_simp
  have fc: "CHR ''e'' \<in> set ''abcdefgh''" by simp
  have rc: "CHR ''3'' \<in> set ''12345678''" by simp
  have fb: "full_board [''rnbqkbnr'', ''ppp.pppp'', ''........'', ''........'', ''...pP...'',
                  ''........'', ''PPPP.PPP'', ''RNBQKBNR'']" by code_simp
  have keeps: "spec_en_passant_keeps
        [''rnbqkbnr'', ''ppp.pppp'', ''........'', ''........'', ''...pP...'',
         ''........'', ''PPPP.PPP'', ''RNBQKBNR''] ''b'' (CHR ''e'') (CHR ''3'')" by code_simp
  have line: "fen_line ''rnbqkbnr/ppp1pppp/8/8/3pP3/8/PPPP1PPP/RNBQKBNR'' ''b'' ''KQkq''
        [CHR ''e'', CHR ''3''] ''0'' ''3'' = fen_one_capturer" by code_simp
  from validate_en_passant_keeps_square[OF six board fc rc, of None] fb keeps line
  have "validate_en_passant fen_one_capturer None = Inr fen_one_capturer" by simp
  with six board fc rc fb keeps show ?thesis by blast
qed

text \<open>
  C1 as the claim states it fails: with a White pawn on e4, a Black pawn on d4 and
  nothing on f4, Black to move, the square e3 is kept, although the adjacent file f holds
  no Black pawn on rank 4.
\<close>

theorem validate_en_passant_one_capturer_counterexample:
  "validate_en_passant fen_one_capturer None = Inr fen_one_capturer
   \<and> split_ws fen_one_capturer ! 3 = ''e3''
   \<and> (case parse_board (split_ws fen_one_capturer ! 0) of
         Inl e \<Rightarrow> Inl e | Inr board \<Rightarrow> cell board 4 5) = Inr (CHR ''.'')"
  by code_simp

section \<open>The positions after e2 to e4 and after a2 to a3\<close>

text \<open>
  C2, as the code has it. After 1.e4 e5 no Black pawn stands on d4 or f4, and the
  validator replaces the field e3 by \<open>'-'\<close>. After the single advance to a3 the square a4
  holds no White pawn; then, with Black to move, any en-passant field on the a-file is
  replaced by \<open>'-'\<close>, whatever stands on the adjacent file.
\<close>

theorem en_passant_after_e4_and_a3:
  assumes six: "split_ws fen = [bp, ''b'', ca, [CHR ''a'', rc], hm, fm]"
    and rc: "rc \<in> set ''12345678''"
    and board: "parse_board bp = Inr board" and fb: "full_board board"
    and a4: "board ! 4 ! 0 \<noteq> CHR ''P''"
  shows "validate_en_passant fen_after_e4_e5 last_move = Inr fen_after_e4_e5_corrected
     \<and> validate_en_passant fen last_move = Inr (fen_line bp ''b'' ca ''-'' hm fm)"
proof
  have "validate_en_passant fen_after_e4_e5 None = Inr fen_after_e4_e5_corrected"
    by code_simp
  then show "validate_en_passant fen_after_e4_e5 last_move = Inr fen_after_e4_e5_corrected"
    by (simp add: validate_en_passant_def)
next
  have fc: "CHR ''a'' \<in> set ''abcdefgh''" by simp
  have "cell board 4 0 = Inr (board ! 4 ! 0)"
    using cell_full[OF fb, of 4 0] by simp
  with a4 have "\<not> spec_en_passant_keeps board ''b'' (CHR ''a'') rc"
    by (simp add: spec_en_passant_keeps_def ord_def)
  then show "validate_en_passant fen last_move = Inr (fen_line bp ''b'' ca ''-'' hm fm)"
    using validate_square_full[OF six board fb fc rc, of last_move] by simp
qed

theorem en_passant_after_e4_and_a3_witness:
  "split_ws fen_after_a3_b4
     = [''rnbqkbnr/p1pppppp/8/8/1p6/P7/1PPPPPPP/RNBQKBNR'', ''b'', ''KQkq'',
        [CHR ''a'', CHR ''3''], ''0'', ''2'']
   \<and> CHR ''3'' \<in> set ''12345678''
   \<and> parse_board ''rnbqkbnr/p1pppppp/8/8/1p6/P7/1PPPPPPP/RNBQKBNR''
       = Inr [''rnbqkbnr'', ''p.pppppp'', ''........'', ''........'', ''.p......'',
              ''P.......'', ''.PPPPPPP'', ''RNBQKBNR'']
   \<and> full_board [''rnbqkbnr'', ''p.pppppp'', ''........'', ''........'', ''.p......'',
                  ''P.......'', ''.PPPPPPP'', ''RNBQKBNR'']
   \<and> [''rnbqkbnr'', ''p.pppppp'', ''........'', ''........'', ''.p......'',
       ''P.......'', ''.PPPPPPP'', ''RNBQKBNR''] ! 4 ! 0 \<noteq> CHR ''P''
   \<and> validate_en_passant fen_after_e4_e5 None = Inr fen_after_e4_e5_corrected
   \<and> validate_en_passant fen_after_a3_b4 None = Inr fen_after_a3_b4_corrected"
proof -
  have six: "split_ws fen_after_a3_b4
     = [''rnbqkbnr/p1pppppp/8/8/1p6/P7/1PPPPPPP/RNBQKBNR'', ''b'', ''KQkq'',
        [CHR ''a'', CHR ''3''], ''0'', ''2'']" by code_simp
  have rc: "CHR ''3'' \<in> set ''12345678''" by simp
  have board: "parse_board ''rnbqkbnr/p1pppppp/8/8/1p6/P7/1PPPPPPP/RNBQKBNR''
       = Inr [''rnbqkbnr'', ''p.pppppp'', ''........'', ''........'', ''.p......'',
              ''P.......'', ''.PPPPPPP'', ''RNBQKBNR'']" by code_simp
  have fb: "full_board [''rnbqkbnr'', ''p.pppppp'', ''........'', ''........'', ''.p......'',
                  ''P.......'', ''.PPPPPPP'', ''RNBQKBNR'']" by code_simp
  have a4: "[''rnbqkbnr'', ''p.pppppp'', ''........'', ''........'', ''.p......'',
       ''P.......'', ''.PPPPPPP'', ''RNBQKBNR''] ! 4 ! 0 \<noteq> CHR ''P''" by simp
  have line: "fen_line ''rnbqkbnr/p1pppppp/8/8/1p6/P7/1PPPPPPP/RNBQKBNR'' ''b'' ''KQkq''
        ''-'' ''0'' ''2'' = fen_after_a3_b4_corrected" by code_simp
  from en_passant_after_e4_and_a3[OF six rc board fb a4, of None] line
  have "validate_en_passant fen_after_e4_e5 None = Inr fen_after_e4_e5_corrected
     \<and> validate_en_passant fen_after_a3_b4 None = Inr fen_after_a3_b4_corrected" by simp
  with six rc board fb a4 show ?thesis by blast
qed

text \<open>
  C2 as the claim states it fails: for the position after 1.e4 e5, Black to move, with
  the en-passant field e3, the validator returns the field \<open>'-'\<close>, not e3.
\<close>

theorem en_passant_after_e4_counterexample:
  "validate_en_passant fen_after_e4_e5 None = Inr fen_after_e4_e5_corrected
   \<and> split_ws fen_after_e4_e5 ! 3 = ''e3''
   \<and> split_ws fen_after_e4_e5_corrected ! 3 = ''-''"
  by code_simp

section \<open>The bishop check on a full board\<close>

text \<open>The boards named above are what the scripts parse from their test inputs.\<close>

lemma boards_parsed:
  "parse_fen_to_board ''rnbqkbnr/pppp1ppp/8/4p3/4P3/8/PPPP1PPP/RNBQKBNR w KQkq e6 0 2''
     = Inr board_after_e4_e5"
  "parse_fen_to_board ''rnbqkbnr/pppppppp/8/8/8/4P3/PPPP1PPP/RNBQKBNR w KQkq - 0 2''
     = Inr board_after_e3"
  "parse_fen_to_board ''rnbqkbnr/pppp1ppp/8/4p3/2B1P3/5N2/PPPP1PPP/RNBQK2R w KQkq - 0 4''
     = Inr board_bishop_c4"
  "parse_fen_to_board problem_fen = Inr board_after_a3_e5"
  by code_simp+

lemma files_index: "0 \<le> f \<Longrightarrow> f < 8 \<Longrightarrow> py_index files f = Inr (files ! nat f)"
  by (simp add: py_index_def files_def)

lemma path_loop_full:
  assumes fb: "full_board board"
    and fs: "file_step = 1 \<or> file_step = - 1"
  shows "to_file = cf + int n * file_step \<Longrightarrow>
     (\<forall>k<n. 0 \<le> cf + int k * file_step \<and> cf + int k * file_step < 8
          \<and> 0 \<le> cr + int k * row_step \<and> cr + int k * row_step < 8) \<Longrightarrow>
     path_loop board to_file file_step row_step cf cr
       = Some (Inr (first_blocked board file_step row_step cf cr n))"
proof (induction n arbitrary: cf cr)
  case 0
  then show ?case by (subst path_loop.simps) simp
next
  case (Suc n)
  from Suc.prems(2) have here: "0 \<le> cf" "cf < 8" "0 \<le> cr" "cr < 8"
    by (auto dest: spec[of _ 0])
  have ne: "cf \<noteq> to_file" using Suc.prems(1) fs by auto
  have tf: "to_file = (cf + file_step) + int n * file_step"
    using Suc.prems(1) by (simp add: algebra_simps)
  have rng: "\<forall>k<n. 0 \<le> (cf + file_step) + int k * file_step
       \<and> (cf + file_step) + int k * file_step < 8
       \<and> 0 \<le> (cr + row_step) + int k * row_step \<and> (cr + row_step) + int k * row_step < 8"
  proof (intro allI impI)
    fix k assume "k < n"
    then have "Suc k < Suc n" by simp
    with Suc.prems(2) have "0 \<le> cf + int (Suc k) * file_step
       \<and> cf + int (Suc k) * file_step < 8
       \<and> 0 \<le> cr + int (Suc k) * row_step \<and> cr + int (Suc k) * row_step < 8"
      by blast
    then show "0 \<le> (cf + file_step) + int k * file_step
       \<and> (cf + file_step) + int k * file_step < 8
       \<and> 0 \<le> (cr + row_step) + int k * row_step \<and> (cr + row_step) + int k * row_step < 8"
      by (simp add: algebra_simps)
  qed
  note IH = Suc.IH[OF tf rng]
  show ?case
    by (subst path_loop.simps)
       (simp add: ne cell_full[OF fb here(3,4,1,2)] files_index[OF here(1,2)] IH)
qed

lemma first_blocked_None:
  "first_blocked board fs rs cf cr n = None \<longleftrightarrow>
     (\<forall>k<n. board ! nat (cr + int k * rs) ! nat (cf + int k * fs) = CHR ''.'')"
proof (induction n arbitrary: cf cr)
  case 0
  then show ?case by simp
next
  case (Suc n)
  have "(\<forall>k<Suc n. board ! nat (cr + int k * rs) ! nat (cf + int k * fs) = CHR ''.'')
     \<longleftrightarrow> board ! nat cr ! nat cf = CHR ''.''
         \<and> (\<forall>k<n. board ! nat (cr + rs + int k * rs) ! nat (cf + fs + int k * fs) = CHR ''.'')"
    (is "?L \<longleftrightarrow> ?R")
  proof
    assume l: ?L
    have "board ! nat cr ! nat cf = CHR ''.''" using l[rule_format, of 0] by simp
    moreover have "\<forall>k<n. board ! nat (cr + rs + int k * rs) ! nat (cf + fs + int k * fs) = CHR ''.''"
    proof (intro allI impI)
      fix k assume "k < n"
      then show "board ! nat (cr + rs + int k * rs) ! nat (cf + fs + int k * fs) = CHR ''.''"
        using l[rule_format, of "Suc k"] by (simp add: algebra_simps)
    qed
    ultimately show ?R by blast
  next
    assume r: ?R
    show ?L
    proof (intro allI impI)
      fix k assume k: "k < Suc n"
      show "board ! nat (cr + int k * rs) ! nat (cf + int k * fs) = CHR ''.''"
      proof (cases k)
        case 0
        with r show ?thesis by simp
      next
        case (Suc j)
        with k have "j < n" by simp
        with r have "board ! nat (cr + rs + int j * rs) ! nat (cf + fs + int j * fs) = CHR ''.''"
          by blast
        then show ?thesis using Suc by (simp add: algebra_simps)
      qed
    qed
  qed
  then show ?case using Suc.IH[of "cf + fs" "cr + rs"] by simp
qed

lemma first_blocked_Some:
  "first_blocked board fs rs cf cr n = Some x \<Longrightarrow> \<exists>f r. x = (False, Path_blocked_at f r)"
  by (induction n arbitrary: cf cr) (auto split: if_splits)

lemma first_blocked_Some_at:
  "first_blocked board fs rs cf cr n = Some x \<Longrightarrow>
     \<exists>k<n. x = (False, Path_blocked_at (files ! nat (cf + int k * fs)) (8 - (cr + int k * rs)))
       \<and> board ! nat (cr + int k * rs) ! nat (cf + int k * fs) \<noteq> CHR ''.''
       \<and> (\<forall>j<k. board ! nat (cr + int j * rs) ! nat (cf + int j * fs) = CHR ''.'')"
proof (induction n arbitrary: cf cr)
  case 0
  then show ?case by simp
next
  case (Suc n)
  show ?case
  proof (cases "board ! nat cr ! nat cf \<noteq> CHR ''.''")
    case True
    with Suc.prems have "x = (False, Path_blocked_at (files ! nat cf) (8 - cr))" by simp
    with True show ?thesis by (intro exI[of _ 0]) simp
  next
    case False
    with Suc.prems have "first_blocked board fs rs (cf + fs) (cr + rs) n = Some x" by simp
    from Suc.IH[OF this] obtain k where k: "k < n"
      and x: "x = (False, Path_blocked_at (files ! nat (cf + fs + int k * fs))
                    (8 - (cr + rs + int k * rs)))"
      and occ: "board ! nat (cr + rs + int k * rs) ! nat (cf + fs + int k * fs) \<noteq> CHR ''.''"
      and before: "\<forall>j<k. board ! nat (cr + rs + int j * rs) ! nat (cf + fs + int j * fs)
                     = CHR ''.''"
      by blast
    have shift: "\<And>j. cf + fs + int j * fs = cf + int (Suc j) * fs"
       "\<And>j. cr + rs + int j * rs = cr + int (Suc j) * rs"
      by (simp_all add: algebra_simps)
    have "\<forall>j<Suc k. board ! nat (cr + int j * rs) ! nat (cf + int j * fs) = CHR ''.''"
    proof (intro allI impI)
      fix j assume j: "j < Suc k"
      show "board ! nat (cr + int j * rs) ! nat (cf + int j * fs) = CHR ''.''"
      proof (cases j)
        case 0
        with False show ?thesis by simp
      next
        case (Suc i)
        with j have "i < k" by simp
        with before have "board ! nat (cr + rs + int i * rs) ! nat (cf + fs + int i * fs)
            = CHR ''.''" by blast
        then show ?thesis unfolding shift Suc .
      qed
    qed
    with k x occ show ?thesis
      unfolding shift by (intro exI[of _ "Suc k"]) simp
  qed
qed

lemma str_index_range: "str_index xs c = Inr i \<Longrightarrow> 0 \<le> i \<and> i < int (length xs)"
  by (induction xs arbitrary: i) (auto split: if_splits sum.splits)

lemma length_files: "length files = 8"
  by (simp add: files_def)

lemma parse_square_range:
  assumes "parse_square sq = Inr (f, r)"
  shows "0 \<le> f \<and> f < 8"
proof -
  from assms obtain c0 where "str_index files c0 = Inr f"
    by (auto simp: parse_square_def split: sum.splits)
  from str_index_range[OF this] show ?thesis by (simp add: length_files)
qed

lemma step_in_range:
  assumes "0 \<le> a" "a < 8" "0 \<le> b" "b < 8" "b = a + int n * s" "s = 1 \<or> s = - 1" "k \<le> n"
  shows "0 \<le> a + int k * s \<and> a + int k * s < 8"
  using assms by auto

lemma can_bishop_diagonal:
  assumes fb: "full_board board"
    and frm: "parse_square from_square = Inr (ff, fr)" and fr1: "1 \<le> fr" and fr8: "fr \<le> 8"
    and to: "parse_square to_square = Inr (tf, tr)" and tr1: "1 \<le> tr" and tr8: "tr \<le> 8"
    and diag: "\<bar>tf - ff\<bar> = \<bar>tr - fr\<bar>" and ne: "tf \<noteq> ff"
  shows "\<exists>blocked.
      can_bishop_move_to board from_square to_square color =
       Some (Inr (case blocked of
                    Some b \<Rightarrow> b
                  | None \<Rightarrow>
                      if piece_at board tf tr \<noteq> CHR ''.'' \<and> own_piece color (piece_at board tf tr)
                      then (False, Destination_occupied_by_own_piece)
                      else (True, Legal_move)))
    \<and> (blocked = None \<longleftrightarrow>
       (\<forall>k. 0 < k \<and> k < \<bar>tf - ff\<bar> \<longrightarrow>
          piece_at board (ff + k * sgn (tf - ff)) (fr + k * sgn (tr - fr)) = CHR ''.''))
    \<and> (\<forall>b. blocked = Some b \<longrightarrow> (\<exists>f r. b = (False, Path_blocked_at f r)))
    \<and> (\<forall>b. blocked = Some b \<longrightarrow>
          (\<exists>k. 0 < k \<and> k < \<bar>tf - ff\<bar>
             \<and> b = (False, Path_blocked_at (files ! nat (ff + k * sgn (tf - ff)))
                                            (fr + k * sgn (tr - fr)))
             \<and> piece_at board (ff + k * sgn (tf - ff)) (fr + k * sgn (tr - fr)) \<noteq> CHR ''.''
             \<and> (\<forall>j. 0 < j \<and> j < k \<longrightarrow>
                   piece_at board (ff + j * sgn (tf - ff)) (fr + j * sgn (tr - fr)) = CHR ''.'')))"
proof -
  define fs :: int where "fs = (if tf > ff then 1 else - 1)"
  define rk :: int where "rk = (if tr > fr then 1 else - 1)"
  define n where "n = nat \<bar>tf - ff\<bar>"
  have ffr: "0 \<le> ff" "ff < 8" using parse_square_range[OF frm] by simp_all
  have tfr: "0 \<le> tf" "tf < 8" using parse_square_range[OF to] by simp_all
  have n1: "1 \<le> n" using ne by (simp add: n_def)
  have fs1: "fs = 1 \<or> fs = - 1" by (simp add: fs_def)
  have rs1: "- rk = 1 \<or> - rk = - 1" by (auto simp: rk_def)
  have fsg: "fs = sgn (tf - ff)" using ne by (simp add: fs_def sgn_if)
  have rsg: "rk = sgn (tr - fr)" using ne diag by (auto simp: rk_def sgn_if)
  have tfe: "tf = ff + int n * fs" using ne by (auto simp: fs_def n_def)
  have tre: "tr = fr + int n * rk" using ne diag by (auto simp: rk_def n_def)
  have rowe: "8 - tr = (8 - fr) + int n * (- rk)" using tre by simp
  define blocked where
    "blocked = first_blocked board fs (- rk) (ff + fs) (8 - fr + - rk) (n - 1)"
  have tf': "tf = (ff + fs) + int (n - 1) * fs"
    using tfe n1 by (simp add: algebra_simps of_nat_diff)
  have rng: "\<forall>k<n - 1. 0 \<le> (ff + fs) + int k * fs \<and> (ff + fs) + int k * fs < 8
      \<and> 0 \<le> (8 - fr + - rk) + int k * (- rk) \<and> (8 - fr + - rk) + int k * (- rk) < 8"
  proof (intro allI impI)
    fix k assume k: "k < n - 1"
    then have k': "Suc k \<le> n" by simp
    have a: "0 \<le> ff + int (Suc k) * fs \<and> ff + int (Suc k) * fs < 8"
      by (rule step_in_range[OF ffr tfr tfe fs1 k'])
    have b: "0 \<le> (8 - fr) + int (Suc k) * (- rk) \<and> (8 - fr) + int (Suc k) * (- rk) < 8"
      by (rule step_in_range[OF _ _ _ _ rowe rs1 k']) (use fr1 fr8 tr1 tr8 in simp_all)
    from a b show "0 \<le> (ff + fs) + int k * fs \<and> (ff + fs) + int k * fs < 8
      \<and> 0 \<le> (8 - fr + - rk) + int k * (- rk) \<and> (8 - fr + - rk) + int k * (- rk) < 8"
      by (simp add: algebra_simps)
  qed
  have loop: "path_loop board tf fs (- rk) (ff + fs) (8 - fr + - rk) = Some (Inr blocked)"
    unfolding blocked_def by (rule path_loop_full[OF fb fs1 tf' rng])
  have dest: "cell board (8 - tr) tf = Inr (piece_at board tf tr)"
    unfolding piece_at_def by (rule cell_full[OF fb]) (use tr1 tr8 tfr in simp_all)
  have cond: "\<not> (\<bar>tf - ff\<bar> \<noteq> \<bar>tr - fr\<bar> \<or> \<bar>tf - ff\<bar> = 0)" using diag ne by simp
  have 1: "can_bishop_move_to board from_square to_square color =
       Some (Inr (case blocked of
                    Some b \<Rightarrow> b
                  | None \<Rightarrow>
                      if piece_at board tf tr \<noteq> CHR ''.'' \<and> own_piece color (piece_at board tf tr)
                      then (False, Destination_occupied_by_own_piece)
                      else (True, Legal_move)))"
    unfolding can_bishop_move_to_def frm to sum.case prod.case Let_def if_not_P[OF cond]
      fs_def[symmetric] rk_def[symmetric] loop
    by (simp add: dest own_piece_def split: option.splits)
  have 2: "blocked = None \<longleftrightarrow>
       (\<forall>k. 0 < k \<and> k < \<bar>tf - ff\<bar> \<longrightarrow>
          piece_at board (ff + k * sgn (tf - ff)) (fr + k * sgn (tr - fr)) = CHR ''.'')"
  proof -
    have sq: "\<And>j. board ! nat (8 - fr + - rk + int j * (- rk)) ! nat (ff + fs + int j * fs)
        = piece_at board (ff + (int j + 1) * fs) (fr + (int j + 1) * rk)"
      by (simp add: piece_at_def algebra_simps)
    have "blocked = None \<longleftrightarrow>
        (\<forall>j<n - 1. piece_at board (ff + (int j + 1) * fs) (fr + (int j + 1) * rk) = CHR ''.'')"
      unfolding blocked_def first_blocked_None sq ..
    also have "\<dots> \<longleftrightarrow> (\<forall>k. 0 < k \<and> k < \<bar>tf - ff\<bar> \<longrightarrow>
          piece_at board (ff + k * fs) (fr + k * rk) = CHR ''.'')"
    proof (intro iffI allI impI)
      fix k :: int
      assume h: "\<forall>j<n - 1. piece_at board (ff + (int j + 1) * fs) (fr + (int j + 1) * rk) = CHR ''.''"
        and k: "0 < k \<and> k < \<bar>tf - ff\<bar>"
      from k have "nat k - 1 < n - 1" unfolding n_def by linarith
      with h have "piece_at board (ff + (int (nat k - 1) + 1) * fs)
          (fr + (int (nat k - 1) + 1) * rk) = CHR ''.''" by blast
      moreover from k have "int (nat k - 1) + 1 = k" by linarith
      ultimately show "piece_at board (ff + k * fs) (fr + k * rk) = CHR ''.''" by simp
    next
      fix j
      assume h: "\<forall>k. 0 < k \<and> k < \<bar>tf - ff\<bar> \<longrightarrow>
          piece_at board (ff + k * fs) (fr + k * rk) = CHR ''.''"
        and j: "j < n - 1"
      from j have "0 < int j + 1 \<and> int j + 1 < \<bar>tf - ff\<bar>" unfolding n_def by linarith
      with h show "piece_at board (ff + (int j + 1) * fs) (fr + (int j + 1) * rk) = CHR ''.''"
        by blast
    qed
    finally show ?thesis unfolding fsg rsg .
  qed
  have 3: "\<forall>b. blocked = Some b \<longrightarrow> (\<exists>f r. b = (False, Path_blocked_at f r))"
    unfolding blocked_def by (blast dest: first_blocked_Some)
  have 4: "\<forall>b. blocked = Some b \<longrightarrow>
          (\<exists>k. 0 < k \<and> k < \<bar>tf - ff\<bar>
             \<and> b = (False, Path_blocked_at (files ! nat (ff + k * sgn (tf - ff)))
                                            (fr + k * sgn (tr - fr)))
             \<and> piece_at board (ff + k * sgn (tf - ff)) (fr + k * sgn (tr - fr)) \<noteq> CHR ''.''
             \<and> (\<forall>j. 0 < j \<and> j < k \<longrightarrow>
                   piece_at board (ff + j * sgn (tf - ff)) (fr + j * sgn (tr - fr)) = CHR ''.''))"
  proof (intro allI impI)
    fix b assume "blocked = Some b"
    from first_blocked_Some_at[OF this[unfolded blocked_def]] obtain k0 where k0: "k0 < n - 1"
      and b: "b = (False, Path_blocked_at (files ! nat (ff + fs + int k0 * fs))
                     (8 - (8 - fr + - rk + int k0 * (- rk))))"
      and occ: "board ! nat (8 - fr + - rk + int k0 * (- rk)) ! nat (ff + fs + int k0 * fs)
                  \<noteq> CHR ''.''"
      and before: "\<forall>j<k0. board ! nat (8 - fr + - rk + int j * (- rk))
                     ! nat (ff + fs + int j * fs) = CHR ''.''"
      by blast
    have sq: "\<And>j. board ! nat (8 - fr + - rk + int j * (- rk)) ! nat (ff + fs + int j * fs)
        = piece_at board (ff + (int j + 1) * fs) (fr + (int j + 1) * rk)"
      by (simp add: piece_at_def algebra_simps)
    have fl: "ff + fs + int k0 * fs = ff + (int k0 + 1) * fs"
      and rl: "8 - (8 - fr + - rk + int k0 * (- rk)) = fr + (int k0 + 1) * rk"
      by (simp_all add: algebra_simps)
    have rng: "0 < int k0 + 1 \<and> int k0 + 1 < \<bar>tf - ff\<bar>"
      using k0 unfolding n_def by linarith
    have bef: "\<forall>j. 0 < j \<and> j < int k0 + 1 \<longrightarrow>
        piece_at board (ff + j * fs) (fr + j * rk) = CHR ''.''"
    proof (intro allI impI)
      fix j :: int assume j: "0 < j \<and> j < int k0 + 1"
      then have "nat j - 1 < k0" by linarith
      with before have "piece_at board (ff + (int (nat j - 1) + 1) * fs)
          (fr + (int (nat j - 1) + 1) * rk) = CHR ''.''"
        unfolding sq by blast
      moreover from j have "int (nat j - 1) + 1 = j" by linarith
      ultimately show "piece_at board (ff + j * fs) (fr + j * rk) = CHR ''.''" by simp
    qed
    from b have "b = (False, Path_blocked_at (files ! nat (ff + (int k0 + 1) * fs))
                            (fr + (int k0 + 1) * rk))"
      unfolding fl rl .
    moreover from occ
    have "piece_at board (ff + (int k0 + 1) * fs) (fr + (int k0 + 1) * rk) \<noteq> CHR ''.''"
      unfolding sq .
    ultimately show "\<exists>k. 0 < k \<and> k < \<bar>tf - ff\<bar>
             \<and> b = (False, Path_blocked_at (files ! nat (ff + k * sgn (tf - ff)))
                                            (fr + k * sgn (tr - fr)))
             \<and> piece_at board (ff + k * sgn (tf - ff)) (fr + k * sgn (tr - fr)) \<noteq> CHR ''.''
             \<and> (\<forall>j. 0 < j \<and> j < k \<longrightarrow>
                   piece_at board (ff + j * sgn (tf - ff)) (fr + j * sgn (tr - fr)) = CHR ''.'')"
      unfolding fsg[symmetric] rsg[symmetric] using rng bef
      by (intro exI[of _ "int k0 + 1"]) simp
  qed
  from 1 2 3 4 show ?thesis by blast
qed

lemma own_piece_not_empty: "own_piece color p \<Longrightarrow> p \<noteq> CHR ''.''"
  by (auto simp: own_piece_def isupper_def islower_def ord_def)

lemma can_bishop_not_diagonal:
  assumes frm: "parse_square from_square = Inr (ff, fr)"
    and to: "parse_square to_square = Inr (tf, tr)"
    and nd: "\<bar>tf - ff\<bar> \<noteq> \<bar>tr - fr\<bar> \<or> tf = ff"
  shows "can_bishop_move_to board from_square to_square color
           = Some (Inr (False, Not_a_diagonal_move))"
  using nd unfolding can_bishop_move_to_def frm to sum.case prod.case Let_def
  by auto

text \<open>
  C3: the board has eight ranks of eight cells, both squares are a file letter and a rank
  digit 1 to 8, and the destination is on a diagonal of the origin. If some square
  strictly between them is occupied, by whatever piece, the check returns \<open>False\<close> with
  the message that the path is blocked. If all of them are empty and the destination is
  empty or holds no piece of the mover's colour, the check returns \<open>True\<close>.
\<close>

theorem bishop_path_blocked_or_clear:
  assumes fb: "full_board board"
    and frm: "parse_square from_square = Inr (ff, fr)" and fr1: "1 \<le> fr" and fr8: "fr \<le> 8"
    and to: "parse_square to_square = Inr (tf, tr)" and tr1: "1 \<le> tr" and tr8: "tr \<le> 8"
    and diag: "\<bar>tf - ff\<bar> = \<bar>tr - fr\<bar>" and ne: "tf \<noteq> ff"
  shows "((\<exists>k. 0 < k \<and> k < \<bar>tf - ff\<bar>
             \<and> piece_at board (ff + k * sgn (tf - ff)) (fr + k * sgn (tr - fr)) \<noteq> CHR ''.'')
          \<longrightarrow> (\<exists>f r. can_bishop_move_to board from_square to_square color
                        = Some (Inr (False, Path_blocked_at f r))))
     \<and> ((\<forall>k. 0 < k \<and> k < \<bar>tf - ff\<bar>
             \<longrightarrow> piece_at board (ff + k * sgn (tf - ff)) (fr + k * sgn (tr - fr)) = CHR ''.'')
          \<and> (piece_at board tf tr = CHR ''.'' \<or> \<not> own_piece color (piece_at board tf tr))
          \<longrightarrow> can_bishop_move_to board from_square to_square color
                = Some (Inr (True, Legal_move)))"
proof -
  obtain blocked where
    res: "can_bishop_move_to board from_square to_square color =
       Some (Inr (case blocked of
                    Some b \<Rightarrow> b
                  | None \<Rightarrow>
                      if piece_at board tf tr \<noteq> CHR ''.'' \<and> own_piece color (piece_at board tf tr)
                      then (False, Destination_occupied_by_own_piece)
                      else (True, Legal_move)))"
    and clear: "blocked = None \<longleftrightarrow>
       (\<forall>k. 0 < k \<and> k < \<bar>tf - ff\<bar> \<longrightarrow>
          piece_at board (ff + k * sgn (tf - ff)) (fr + k * sgn (tr - fr)) = CHR ''.'')"
    and some: "\<forall>b. blocked = Some b \<longrightarrow> (\<exists>f r. b = (False, Path_blocked_at f r))"
    using can_bishop_diagonal[where color = color, OF fb frm fr1 fr8 to tr1 tr8 diag ne]
    by blast
  show ?thesis
  proof (intro conjI impI)
    assume "\<exists>k. 0 < k \<and> k < \<bar>tf - ff\<bar>
             \<and> piece_at board (ff + k * sgn (tf - ff)) (fr + k * sgn (tr - fr)) \<noteq> CHR ''.''"
    with clear have "blocked \<noteq> None" by blast
    then obtain b where b: "blocked = Some b" by blast
    from some b obtain f r where "b = (False, Path_blocked_at f r)" by blast
    with res b show "\<exists>f r. can_bishop_move_to board from_square to_square color
                        = Some (Inr (False, Path_blocked_at f r))" by simp
  next
    assume a: "(\<forall>k. 0 < k \<and> k < \<bar>tf - ff\<bar>
             \<longrightarrow> piece_at board (ff + k * sgn (tf - ff)) (fr + k * sgn (tr - fr)) = CHR ''.'')
          \<and> (piece_at board tf tr = CHR ''.'' \<or> \<not> own_piece color (piece_at board tf tr))"
    with clear have "blocked = None" by blast
    with res a show "can_bishop_move_to board from_square to_square color
                = Some (Inr (True, Legal_move))" by auto
  qed
qed

theorem bishop_path_blocked_or_clear_witness:
  "full_board board_after_e4_e5
   \<and> parse_square ''f1'' = Inr (5, 1) \<and> parse_square ''h3'' = Inr (7, 3)
   \<and> parse_square ''a6'' = Inr (0, 6)
   \<and> piece_at board_after_e4_e5 6 2 \<noteq> CHR ''.''
   \<and> piece_at board_after_e4_e5 0 6 = CHR ''.''
   \<and> (\<exists>f r. can_bishop_move_to board_after_e4_e5 ''f1'' ''h3'' ''white''
               = Some (Inr (False, Path_blocked_at f r)))
   \<and> can_bishop_move_to board_after_e4_e5 ''f1'' ''a6'' ''white'' = Some (Inr (True, Legal_move))"
proof -
  have fb: "full_board board_after_e4_e5" by code_simp
  have f1: "parse_square ''f1'' = Inr (5, 1)" by code_simp
  have h3: "parse_square ''h3'' = Inr (7, 3)" by code_simp
  have a6: "parse_square ''a6'' = Inr (0, 6)" by code_simp
  have g2: "piece_at board_after_e4_e5 6 2 \<noteq> CHR ''.''" by code_simp
  have a6e: "piece_at board_after_e4_e5 0 6 = CHR ''.''" by code_simp
  have "\<exists>k::int. 0 < k \<and> k < \<bar>7 - 5\<bar>
      \<and> piece_at board_after_e4_e5 (5 + k * sgn (7 - 5)) (1 + k * sgn (3 - 1)) \<noteq> CHR ''.''"
    using g2 by (intro exI[of _ 1]) simp
  with bishop_path_blocked_or_clear[OF fb f1 _ _ h3, of "''white''"]
  have blocked: "\<exists>f r. can_bishop_move_to board_after_e4_e5 ''f1'' ''h3'' ''white''
               = Some (Inr (False, Path_blocked_at f r))" by simp
  have "\<forall>k::int. 0 < k \<and> k < \<bar>0 - 5\<bar>
      \<longrightarrow> piece_at board_after_e4_e5 (5 + k * sgn (0 - 5)) (1 + k * sgn (6 - 1)) = CHR ''.''"
  proof (intro allI impI)
    fix k :: int assume "0 < k \<and> k < \<bar>0 - 5\<bar>"
    then have "k = 1 \<or> k = 2 \<or> k = 3 \<or> k = 4" by auto
    then show "piece_at board_after_e4_e5 (5 + k * sgn (0 - 5)) (1 + k * sgn (6 - 1)) = CHR ''.''"
      by (auto simp: piece_at_def board_after_e4_e5_def)
  qed
  with bishop_path_blocked_or_clear[OF fb f1 _ _ a6, of "''white''"] a6e
  have clear: "can_bishop_move_to board_after_e4_e5 ''f1'' ''a6'' ''white''
      = Some (Inr (True, Legal_move))" by simp
  from fb f1 h3 a6 g2 a6e blocked clear show ?thesis by blast
qed

text \<open>
  C7, as the code has it. The geometry is tested before the destination. A move that is
  not diagonal is reported illegal as not diagonal. A diagonal move with an occupied
  square strictly between is reported illegal with the first such square named as the
  block. Only a diagonal move whose squares strictly between are all empty reaches the
  test of the destination: a piece of the mover's colour there makes the move illegal
  with the occupied destination as the reason, and any other piece makes it legal; the
  function takes no capture flag. So a move to a square that holds a piece of the mover's
  colour is reported illegal in every case, with the reason found first.
\<close>

theorem bishop_destination_occupied:
  assumes fb: "full_board board"
    and frm: "parse_square from_square = Inr (ff, fr)" and fr1: "1 \<le> fr" and fr8: "fr \<le> 8"
    and to: "parse_square to_square = Inr (tf, tr)" and tr1: "1 \<le> tr" and tr8: "tr \<le> 8"
  shows "(\<bar>tf - ff\<bar> \<noteq> \<bar>tr - fr\<bar> \<or> tf = ff
          \<longrightarrow> can_bishop_move_to board from_square to_square color
                = Some (Inr (False, Not_a_diagonal_move)))
     \<and> (\<bar>tf - ff\<bar> = \<bar>tr - fr\<bar> \<and> tf \<noteq> ff
         \<and> (\<exists>k. 0 < k \<and> k < \<bar>tf - ff\<bar>
               \<and> piece_at board (ff + k * sgn (tf - ff)) (fr + k * sgn (tr - fr)) \<noteq> CHR ''.'')
          \<longrightarrow> (\<exists>k. 0 < k \<and> k < \<bar>tf - ff\<bar>
                 \<and> piece_at board (ff + k * sgn (tf - ff)) (fr + k * sgn (tr - fr)) \<noteq> CHR ''.''
                 \<and> (\<forall>j. 0 < j \<and> j < k \<longrightarrow>
                       piece_at board (ff + j * sgn (tf - ff)) (fr + j * sgn (tr - fr))
                         = CHR ''.'')
                 \<and> can_bishop_move_to board from_square to_square color
                     = Some (Inr (False,
                         Path_blocked_at (files ! nat (ff + k * sgn (tf - ff)))
                                         (fr + k * sgn (tr - fr))))))
     \<and> (\<bar>tf - ff\<bar> = \<bar>tr - fr\<bar> \<and> tf \<noteq> ff
         \<and> (\<forall>k. 0 < k \<and> k < \<bar>tf - ff\<bar>
               \<longrightarrow> piece_at board (ff + k * sgn (tf - ff)) (fr + k * sgn (tr - fr)) = CHR ''.'')
         \<longrightarrow> (own_piece color (piece_at board tf tr)
               \<longrightarrow> can_bishop_move_to board from_square to_square color
                     = Some (Inr (False, Destination_occupied_by_own_piece)))
           \<and> (piece_at board tf tr \<noteq> CHR ''.'' \<and> \<not> own_piece color (piece_at board tf tr)
               \<longrightarrow> can_bishop_move_to board from_square to_square color
                     = Some (Inr (True, Legal_move))))
     \<and> (own_piece color (piece_at board tf tr)
          \<longrightarrow> (\<exists>r. can_bishop_move_to board from_square to_square color
                      = Some (Inr (False, r))))"
proof (cases "\<bar>tf - ff\<bar> = \<bar>tr - fr\<bar> \<and> tf \<noteq> ff")
  case False
  then have "can_bishop_move_to board from_square to_square color
           = Some (Inr (False, Not_a_diagonal_move))"
    by (intro can_bishop_not_diagonal[OF frm to]) auto
  with False show ?thesis by auto
next
  case True
  then have diag: "\<bar>tf - ff\<bar> = \<bar>tr - fr\<bar>" and ne: "tf \<noteq> ff" by simp_all
  obtain blocked where
    res: "can_bishop_move_to board from_square to_square color =
       Some (Inr (case blocked of
                    Some b \<Rightarrow> b
                  | None \<Rightarrow>
                      if piece_at board tf tr \<noteq> CHR ''.'' \<and> own_piece color (piece_at board tf tr)
                      then (False, Destination_occupied_by_own_piece)
                      else (True, Legal_move)))"
    and clear: "blocked = None \<longleftrightarrow>
       (\<forall>k. 0 < k \<and> k < \<bar>tf - ff\<bar> \<longrightarrow>
          piece_at board (ff + k * sgn (tf - ff)) (fr + k * sgn (tr - fr)) = CHR ''.'')"
    and at: "\<forall>b. blocked = Some b \<longrightarrow>
          (\<exists>k. 0 < k \<and> k < \<bar>tf - ff\<bar>
             \<and> b = (False, Path_blocked_at (files ! nat (ff + k * sgn (tf - ff)))
                                            (fr + k * sgn (tr - fr)))
             \<and> piece_at board (ff + k * sgn (tf - ff)) (fr + k * sgn (tr - fr)) \<noteq> CHR ''.''
             \<and> (\<forall>j. 0 < j \<and> j < k \<longrightarrow>
                   piece_at board (ff + j * sgn (tf - ff)) (fr + j * sgn (tr - fr)) = CHR ''.''))"
    using can_bishop_diagonal[where color = color, OF fb frm fr1 fr8 to tr1 tr8 diag ne]
    by blast
  have 1: "\<bar>tf - ff\<bar> \<noteq> \<bar>tr - fr\<bar> \<or> tf = ff
          \<longrightarrow> can_bishop_move_to board from_square to_square color
                = Some (Inr (False, Not_a_diagonal_move))"
    using True by simp
  have 2: "(\<exists>k. 0 < k \<and> k < \<bar>tf - ff\<bar>
               \<and> piece_at board (ff + k * sgn (tf - ff)) (fr + k * sgn (tr - fr)) \<noteq> CHR ''.'')
          \<longrightarrow> (\<exists>k. 0 < k \<and> k < \<bar>tf - ff\<bar>
                 \<and> piece_at board (ff + k * sgn (tf - ff)) (fr + k * sgn (tr - fr)) \<noteq> CHR ''.''
                 \<and> (\<forall>j. 0 < j \<and> j < k \<longrightarrow>
                       piece_at board (ff + j * sgn (tf - ff)) (fr + j * sgn (tr - fr))
                         = CHR ''.'')
                 \<and> can_bishop_move_to board from_square to_square color
                     = Some (Inr (False,
                         Path_blocked_at (files ! nat (ff + k * sgn (tf - ff)))
                                         (fr + k * sgn (tr - fr)))))"
  proof
    assume "\<exists>k. 0 < k \<and> k < \<bar>tf - ff\<bar>
               \<and> piece_at board (ff + k * sgn (tf - ff)) (fr + k * sgn (tr - fr)) \<noteq> CHR ''.''"
    with clear have "blocked \<noteq> None" by blast
    then obtain b where b: "blocked = Some b" by blast
    with at obtain k where k: "0 < k \<and> k < \<bar>tf - ff\<bar>"
      and bk: "b = (False, Path_blocked_at (files ! nat (ff + k * sgn (tf - ff)))
                                            (fr + k * sgn (tr - fr)))"
      and occ: "piece_at board (ff + k * sgn (tf - ff)) (fr + k * sgn (tr - fr)) \<noteq> CHR ''.''"
      and before: "\<forall>j. 0 < j \<and> j < k \<longrightarrow>
                   piece_at board (ff + j * sgn (tf - ff)) (fr + j * sgn (tr - fr)) = CHR ''.''"
      by blast
    from res b bk have "can_bishop_move_to board from_square to_square color
        = Some (Inr (False, Path_blocked_at (files ! nat (ff + k * sgn (tf - ff)))
                                            (fr + k * sgn (tr - fr))))" by simp
    with k occ before show "\<exists>k. 0 < k \<and> k < \<bar>tf - ff\<bar>
                 \<and> piece_at board (ff + k * sgn (tf - ff)) (fr + k * sgn (tr - fr)) \<noteq> CHR ''.''
                 \<and> (\<forall>j. 0 < j \<and> j < k \<longrightarrow>
                       piece_at board (ff + j * sgn (tf - ff)) (fr + j * sgn (tr - fr))
                         = CHR ''.'')
                 \<and> can_bishop_move_to board from_square to_square color
                     = Some (Inr (False,
                         Path_blocked_at (files ! nat (ff + k * sgn (tf - ff)))
                                         (fr + k * sgn (tr - fr))))"
      by blast
  qed
  have 3: "(\<forall>k. 0 < k \<and> k < \<bar>tf - ff\<bar>
               \<longrightarrow> piece_at board (ff + k * sgn (tf - ff)) (fr + k * sgn (tr - fr)) = CHR ''.'')
         \<longrightarrow> (own_piece color (piece_at board tf tr)
               \<longrightarrow> can_bishop_move_to board from_square to_square color
                     = Some (Inr (False, Destination_occupied_by_own_piece)))
           \<and> (piece_at board tf tr \<noteq> CHR ''.'' \<and> \<not> own_piece color (piece_at board tf tr)
               \<longrightarrow> can_bishop_move_to board from_square to_square color
                     = Some (Inr (True, Legal_move)))"
  proof
    assume "\<forall>k. 0 < k \<and> k < \<bar>tf - ff\<bar>
               \<longrightarrow> piece_at board (ff + k * sgn (tf - ff)) (fr + k * sgn (tr - fr)) = CHR ''.''"
    with clear have "blocked = None" by blast
    with res show "(own_piece color (piece_at board tf tr)
               \<longrightarrow> can_bishop_move_to board from_square to_square color
                     = Some (Inr (False, Destination_occupied_by_own_piece)))
           \<and> (piece_at board tf tr \<noteq> CHR ''.'' \<and> \<not> own_piece color (piece_at board tf tr)
               \<longrightarrow> can_bishop_move_to board from_square to_square color
                     = Some (Inr (True, Legal_move)))"
      by (auto dest: own_piece_not_empty)
  qed
  have 4: "own_piece color (piece_at board tf tr)
          \<longrightarrow> (\<exists>r. can_bishop_move_to board from_square to_square color = Some (Inr (False, r)))"
  proof (cases blocked)
    case None
    with res show ?thesis by (auto dest: own_piece_not_empty)
  next
    case (Some b)
    with at res show ?thesis by auto
  qed
  from 1 2 3 4 True show ?thesis by blast
qed

theorem bishop_destination_occupied_witness:
  "full_board board_after_e4_e5
   \<and> parse_square ''f1'' = Inr (5, 1) \<and> parse_square ''g2'' = Inr (6, 2)
   \<and> parse_square ''f2'' = Inr (5, 2)
   \<and> own_piece ''white'' (piece_at board_after_e4_e5 6 2)
   \<and> own_piece ''white'' (piece_at board_after_e4_e5 5 2)
   \<and> can_bishop_move_to board_after_e4_e5 ''f1'' ''g2'' ''white''
       = Some (Inr (False, Destination_occupied_by_own_piece))
   \<and> can_bishop_move_to board_after_e4_e5 ''f1'' ''f2'' ''white''
       = Some (Inr (False, Not_a_diagonal_move))
   \<and> full_board board_after_e3
   \<and> parse_square ''c1'' = Inr (2, 1) \<and> parse_square ''e3'' = Inr (4, 3)
   \<and> own_piece ''white'' (piece_at board_after_e3 4 3)
   \<and> piece_at board_after_e3 3 2 \<noteq> CHR ''.''
   \<and> can_bishop_move_to board_after_e3 ''c1'' ''e3'' ''white''
       = Some (Inr (False, Path_blocked_at (CHR ''d'') 2))
   \<and> full_board board_bishop_c4
   \<and> parse_square ''c4'' = Inr (2, 4) \<and> parse_square ''f7'' = Inr (5, 7)
   \<and> piece_at board_bishop_c4 5 7 = CHR ''p''
   \<and> can_bishop_move_to board_bishop_c4 ''c4'' ''f7'' ''white'' = Some (Inr (True, Legal_move))"
proof -
  have fb: "full_board board_after_e4_e5" by code_simp
  have f1: "parse_square ''f1'' = Inr (5, 1)" by code_simp
  have g2: "parse_square ''g2'' = Inr (6, 2)" by code_simp
  have f2: "parse_square ''f2'' = Inr (5, 2)" by code_simp
  have own: "own_piece ''white'' (piece_at board_after_e4_e5 6 2)" by code_simp
  have own2: "own_piece ''white'' (piece_at board_after_e4_e5 5 2)" by code_simp
  have adjacent: "\<forall>k::int. 0 < k \<and> k < \<bar>6 - 5\<bar>
      \<longrightarrow> piece_at board_after_e4_e5 (5 + k * sgn (6 - 5)) (1 + k * sgn (2 - 1)) = CHR ''.''"
    by auto
  from bishop_destination_occupied[OF fb f1 _ _ g2, of "''white''"] own adjacent
  have r1: "can_bishop_move_to board_after_e4_e5 ''f1'' ''g2'' ''white''
       = Some (Inr (False, Destination_occupied_by_own_piece))" by simp
  from bishop_destination_occupied[OF fb f1 _ _ f2, of "''white''"]
  have r0: "can_bishop_move_to board_after_e4_e5 ''f1'' ''f2'' ''white''
       = Some (Inr (False, Not_a_diagonal_move))" by simp
  have fb3: "full_board board_after_e3" by code_simp
  have c1: "parse_square ''c1'' = Inr (2, 1)" by code_simp
  have e3: "parse_square ''e3'' = Inr (4, 3)" by code_simp
  have own3: "own_piece ''white'' (piece_at board_after_e3 4 3)" by code_simp
  have d2: "piece_at board_after_e3 3 2 \<noteq> CHR ''.''" by code_simp
  have "\<exists>k::int. 0 < k \<and> k < \<bar>4 - 2\<bar>
      \<and> piece_at board_after_e3 (2 + k * sgn (4 - 2)) (1 + k * sgn (3 - 1)) \<noteq> CHR ''.''"
    using d2 by (intro exI[of _ 1]) simp
  with bishop_destination_occupied[OF fb3 c1 _ _ e3, of "''white''"]
  obtain k :: int where k: "0 < k \<and> k < \<bar>4 - 2\<bar>"
    and rk: "can_bishop_move_to board_after_e3 ''c1'' ''e3'' ''white''
       = Some (Inr (False, Path_blocked_at (files ! nat (2 + k * sgn (4 - 2)))
                                          (1 + k * sgn (3 - 1))))"
    by auto
  from k have "k = 1" by simp
  with rk have r3: "can_bishop_move_to board_after_e3 ''c1'' ''e3'' ''white''
       = Some (Inr (False, Path_blocked_at (CHR ''d'') 2))"
    by (simp add: files_def)
  have fb2: "full_board board_bishop_c4" by code_simp
  have c4: "parse_square ''c4'' = Inr (2, 4)" by code_simp
  have f7: "parse_square ''f7'' = Inr (5, 7)" by code_simp
  have p: "piece_at board_bishop_c4 5 7 = CHR ''p''" by code_simp
  have enemy: "\<not> own_piece ''white'' (CHR ''p'')" by code_simp
  have clear: "\<forall>k::int. 0 < k \<and> k < \<bar>5 - 2\<bar>
      \<longrightarrow> piece_at board_bishop_c4 (2 + k * sgn (5 - 2)) (4 + k * sgn (7 - 4)) = CHR ''.''"
  proof (intro allI impI)
    fix k :: int assume "0 < k \<and> k < \<bar>5 - 2\<bar>"
    then have "k = 1 \<or> k = 2" by auto
    then show "piece_at board_bishop_c4 (2 + k * sgn (5 - 2)) (4 + k * sgn (7 - 4)) = CHR ''.''"
      by (auto simp: piece_at_def board_bishop_c4_def)
  qed
  from bishop_destination_occupied[OF fb2 c4 _ _ f7, of "''white''"] p enemy clear
  have r2: "can_bishop_move_to board_bishop_c4 ''c4'' ''f7'' ''white''
      = Some (Inr (True, Legal_move))" by simp
  from fb f1 g2 f2 own own2 r1 r0 fb3 c1 e3 own3 d2 r3 fb2 c4 f7 p r2 show ?thesis by blast
qed

text \<open>
  C7 as the claim states it fails: in the position after 1.e3 the move from c1 to e3 has
  a White pawn on its destination, and the reason reported is the pawn on d2 that blocks
  the path.
\<close>

theorem bishop_destination_occupied_counterexample:
  "can_bishop_move_to board_after_e3 ''c1'' ''e3'' ''white''
     = Some (Inr (False, Path_blocked_at (CHR ''d'') 2))
   \<and> piece_at board_after_e3 4 3 = CHR ''P''
   \<and> own_piece ''white'' (piece_at board_after_e3 4 3)
   \<and> parse_fen_to_board ''rnbqkbnr/pppppppp/8/8/8/4P3/PPPP1PPP/RNBQKBNR w KQkq - 0 2''
       = Inr board_after_e3"
  by code_simp

section \<open>The pawn move generator on a full board\<close>

lemma str_int_ranks:
  "str_int 3 = ''3''" "str_int 4 = ''4''" "str_int 5 = ''5''" "str_int 6 = ''6''"
  by code_simp+


lemma scan_squares_member:
  "scan_squares board color acc sqs = Inr out \<Longrightarrow> m \<in> set out \<Longrightarrow>
     m \<in> set acc \<or> (\<exists>(r, f)\<in>set sqs. \<exists>ms. pawn_moves_at board color r f = Inr ms \<and> m \<in> set ms)"
proof (induction sqs arbitrary: acc)
  case Nil
  then show ?case by simp
next
  case (Cons sq sqs)
  obtain r f where sq: "sq = (r, f)" by (cases sq)
  from Cons.prems(1) obtain ms where ms: "pawn_moves_at board color r f = Inr ms"
    and rest: "scan_squares board color (acc @ ms) sqs = Inr out"
    by (auto simp: sq split: sum.splits)
  from Cons.IH[OF rest Cons.prems(2)] ms show ?case
    by (auto simp: sq)
qed

lemma scan_squares_includes:
  "scan_squares board color acc sqs = Inr out \<Longrightarrow>
     set acc \<subseteq> set out
     \<and> (\<forall>(r, f)\<in>set sqs. \<forall>ms. pawn_moves_at board color r f = Inr ms \<longrightarrow> set ms \<subseteq> set out)"
proof (induction sqs arbitrary: acc)
  case Nil
  then show ?case by simp
next
  case (Cons sq sqs)
  obtain r f where sq: "sq = (r, f)" by (cases sq)
  from Cons.prems(1) obtain ms where ms: "pawn_moves_at board color r f = Inr ms"
    and rest: "scan_squares board color (acc @ ms) sqs = Inr out"
    by (auto simp: sq split: sum.splits)
  from Cons.IH[OF rest] ms show ?case
    by (auto simp: sq)
qed

lemma scan_squares_total:
  "(\<forall>(r, f)\<in>set sqs. \<exists>ms. pawn_moves_at board color r f = Inr ms) \<Longrightarrow>
     \<exists>out. scan_squares board color acc sqs = Inr out"
  by (induction sqs arbitrary: acc) (auto split: sum.splits)

lemma pawn_moves_at_full:
  assumes fb: "full_board board" and r: "0 \<le> rank_idx" "rank_idx < 8"
    and f: "0 \<le> file_idx" "file_idx < 8"
  shows "\<exists>ms. pawn_moves_at board color rank_idx file_idx = Inr ms"
  using r f unfolding pawn_moves_at_def Let_def
  by (auto simp: cell_full[OF fb] files_index split: sum.splits)

lemma squares_range: "(r, f) \<in> set (List.product [0..7] [0..7]) \<longleftrightarrow> 0 \<le> r \<and> r \<le> 7 \<and> 0 \<le> f \<and> f \<le> 7"
  by auto

lemma analyze_pawn_moves_full:
  assumes fb: "full_board board"
  shows "\<exists>out. analyze_pawn_moves board color = Inr out"
  unfolding analyze_pawn_moves_def
proof (rule scan_squares_total, clarify)
  fix r f :: int assume "(r, f) \<in> set (List.product [0..7] [0..7])"
  then have "0 \<le> r" "r < 8" "0 \<le> f" "f < 8" by auto
  then show "\<exists>ms. pawn_moves_at board color r f = Inr ms"
    by (rule pawn_moves_at_full[OF fb])
qed

lemma pawn_moves_white_home:
  assumes fb: "full_board board" and f: "0 \<le> file_idx" "file_idx < 8"
    and pawn: "piece_at board file_idx 2 = CHR ''P''"
  shows "pawn_moves_at board ''white'' 6 file_idx =
     Inr (if piece_at board file_idx 3 = CHR ''.'' then
            (if piece_at board file_idx 4 = CHR ''.''
             then [files ! nat file_idx # ''3'', files ! nat file_idx # ''4'']
             else [files ! nat file_idx # ''3''])
          else [])"
  using f pawn unfolding pawn_moves_at_def Let_def
  by (simp add: cell_full[OF fb] files_index piece_at_def str_int_ranks)

lemma pawn_moves_black_home:
  assumes fb: "full_board board" and f: "0 \<le> file_idx" "file_idx < 8"
    and pawn: "piece_at board file_idx 7 = CHR ''p''" and c: "color \<noteq> ''white''"
  shows "pawn_moves_at board color 1 file_idx =
     Inr (if piece_at board file_idx 6 = CHR ''.'' then
            (if piece_at board file_idx 5 = CHR ''.''
             then [files ! nat file_idx # ''6'', files ! nat file_idx # ''5'']
             else [files ! nat file_idx # ''6''])
          else [])"
  using f pawn c unfolding pawn_moves_at_def Let_def
  by (simp add: cell_full[OF fb] files_index piece_at_def str_int_ranks)

text \<open>What is appended at one square of a full board, for either colour.\<close>

lemma pawn_moves_at_white:
  assumes fb: "full_board board" and r: "0 \<le> r" "r < 8" and f: "0 \<le> f" "f < 8"
  shows "pawn_moves_at board ''white'' r f =
     Inr (if board ! nat r ! nat f = CHR ''P'' \<and> 1 \<le> r \<and> board ! nat (r - 1) ! nat f = CHR ''.''
          then (files ! nat f # str_int (9 - r))
               # (if r = 6 \<and> board ! 4 ! nat f = CHR ''.'' then [files ! nat f # ''4''] else [])
          else [])"
proof -
  have up: "1 \<le> r \<Longrightarrow> cell board (r - 1) f = Inr (board ! nat (r - 1) ! nat f)"
    using r f by (intro cell_full[OF fb]) auto
  have two: "cell board 4 f = Inr (board ! 4 ! nat f)"
    using cell_full[OF fb, of 4 f] f by simp
  have nine: "8 - (r - 1) = 9 - r" by simp
  show ?thesis
    using r f unfolding pawn_moves_at_def Let_def
    by (auto simp: cell_full[OF fb] files_index up two nine str_int_ranks)
qed

lemma pawn_moves_at_black:
  assumes fb: "full_board board" and r: "0 \<le> r" "r < 8" and f: "0 \<le> f" "f < 8"
    and c: "color \<noteq> ''white''"
  shows "pawn_moves_at board color r f =
     Inr (if board ! nat r ! nat f = CHR ''p'' \<and> r < 7 \<and> board ! nat (r + 1) ! nat f = CHR ''.''
          then (files ! nat f # str_int (7 - r))
               # (if r = 1 \<and> board ! 3 ! nat f = CHR ''.'' then [files ! nat f # ''5''] else [])
          else [])"
proof -
  have down: "r < 7 \<Longrightarrow> cell board (r + 1) f = Inr (board ! nat (r + 1) ! nat f)"
    using r f by (intro cell_full[OF fb]) auto
  have two: "cell board 3 f = Inr (board ! 3 ! nat f)"
    using cell_full[OF fb, of 3 f] f by simp
  have seven: "8 - (r + 1) = 7 - r" by simp
  show ?thesis
    using r f c unfolding pawn_moves_at_def Let_def
    by (auto simp: cell_full[OF fb] files_index down two seven str_int_ranks)
qed

text \<open>The names of two squares agree only when the squares do.\<close>

lemma str_int_digit: "0 \<le> k \<Longrightarrow> k < 10 \<Longrightarrow> str_int k = [char_of (48 + nat k)]"
  by (simp add: str_int_def str_nat.simps)

lemma digit_char_inj:
  "(n::nat) < 200 \<Longrightarrow> m < 200 \<Longrightarrow> (char_of n :: char) = char_of m \<longleftrightarrow> n = m"
  by (auto simp: char_of_eq_iff take_bit_eq_mod)

lemma files_nth_inj:
  assumes "0 \<le> f" "f < 8" "0 \<le> g" "g < 8"
  shows "files ! nat f = files ! nat g \<longleftrightarrow> f = g"
proof -
  have "distinct files" by (simp add: files_def)
  moreover have "nat f < length files" "nat g < length files"
    using assms by (simp_all add: length_files)
  ultimately have "files ! nat f = files ! nat g \<longleftrightarrow> nat f = nat g"
    by (simp add: nth_eq_iff_index_eq)
  with assms show ?thesis by auto
qed

lemma square_name_inj:
  assumes "0 \<le> f" "f < 8" "0 \<le> g" "g < 8" "0 \<le> k" "k < 10" "0 \<le> j" "j < 10"
  shows "files ! nat f # str_int k = files ! nat g # str_int j \<longleftrightarrow> f = g \<and> k = j"
proof -
  have "str_int k = str_int j \<longleftrightarrow> k = j"
    using assms(5-8) digit_char_inj[of "48 + nat k" "48 + nat j"]
    by (auto simp: str_int_digit)
  with files_nth_inj[OF assms(1-4)] show ?thesis by simp
qed

text \<open>The returned list holds exactly what was appended at the 64 squares.\<close>

lemma analyze_pawn_moves_member:
  assumes "analyze_pawn_moves board color = Inr valid_moves"
  shows "m \<in> set valid_moves \<longleftrightarrow>
     (\<exists>r f ms. 0 \<le> r \<and> r < 8 \<and> 0 \<le> f \<and> f < 8
        \<and> pawn_moves_at board color r f = Inr ms \<and> m \<in> set ms)"
proof
  assume "m \<in> set valid_moves"
  from scan_squares_member[OF assms[unfolded analyze_pawn_moves_def] this]
  obtain r f ms where sq: "(r, f) \<in> set (List.product [0..7] [0..7])"
    and ms: "pawn_moves_at board color r f = Inr ms" and m: "m \<in> set ms"
    by auto
  from sq have "0 \<le> r" "r < 8" "0 \<le> f" "f < 8" by auto
  with ms m show "\<exists>r f ms. 0 \<le> r \<and> r < 8 \<and> 0 \<le> f \<and> f < 8
        \<and> pawn_moves_at board color r f = Inr ms \<and> m \<in> set ms" by blast
next
  assume "\<exists>r f ms. 0 \<le> r \<and> r < 8 \<and> 0 \<le> f \<and> f < 8
        \<and> pawn_moves_at board color r f = Inr ms \<and> m \<in> set ms"
  then obtain r f ms where rng: "0 \<le> r" "r < 8" "0 \<le> f" "f < 8"
    and ms: "pawn_moves_at board color r f = Inr ms" and m: "m \<in> set ms" by blast
  from rng have sq: "(r, f) \<in> set (List.product [0..7] [0..7])" by simp
  from scan_squares_includes[OF assms[unfolded analyze_pawn_moves_def]] sq ms
  have "set ms \<subseteq> set valid_moves" by blast
  with m show "m \<in> set valid_moves" by blast
qed

lemma white_list_moves:
  assumes fb: "full_board board" and f: "0 \<le> f" "f < 8"
    and a: "analyze_pawn_moves board ''white'' = Inr valid_moves"
    and k: "2 \<le> k" "k \<le> 8"
  shows "files ! nat f # str_int k \<in> set valid_moves \<longleftrightarrow>
     (board ! nat (9 - k) ! nat f = CHR ''P'' \<and> board ! nat (8 - k) ! nat f = CHR ''.'')
     \<or> (k = 4 \<and> board ! 6 ! nat f = CHR ''P'' \<and> board ! 5 ! nat f = CHR ''.''
          \<and> board ! 4 ! nat f = CHR ''.'')"
  (is "?m \<in> _ \<longleftrightarrow> ?single \<or> ?double")
proof
  assume "?m \<in> set valid_moves"
  then obtain r g ms where rng: "0 \<le> r" "r < 8" "0 \<le> g" "g < 8"
    and ms: "pawn_moves_at board ''white'' r g = Inr ms" and m: "?m \<in> set ms"
    unfolding analyze_pawn_moves_member[OF a] by blast
  from ms m have p: "board ! nat r ! nat g = CHR ''P''" and r1: "1 \<le> r"
    and e: "board ! nat (r - 1) ! nat g = CHR ''.''"
    and cases: "?m = files ! nat g # str_int (9 - r)
        \<or> (r = 6 \<and> board ! 4 ! nat g = CHR ''.'' \<and> ?m = files ! nat g # str_int 4)"
    unfolding pawn_moves_at_white[OF fb rng]
    by (auto simp: str_int_ranks split: if_splits)
  from cases show "?single \<or> ?double"
  proof
    assume "?m = files ! nat g # str_int (9 - r)"
    then have "f = g \<and> k = 9 - r"
      using square_name_inj[of f g k "9 - r"] f rng r1 k by simp
    then have fg: "g = f" and rk: "r = 9 - k" by simp_all
    have "9 - k - 1 = 8 - k" by simp
    with p e have ?single unfolding fg rk by simp
    then show ?thesis ..
  next
    assume d: "r = 6 \<and> board ! 4 ! nat g = CHR ''.'' \<and> ?m = files ! nat g # str_int 4"
    then have "f = g \<and> k = 4"
      using square_name_inj[of f g k 4] f rng k by simp
    with d p e have ?double by simp
    then show ?thesis ..
  qed
next
  assume "?single \<or> ?double"
  then show "?m \<in> set valid_moves"
  proof
    assume s: ?single
    have rng: "0 \<le> 9 - k" "9 - k < 8" using k by simp_all
    have "9 - (9 - k) = k" "9 - k - 1 = 8 - k" by simp_all
    with s k have "?m \<in> set (if board ! nat (9 - k) ! nat f = CHR ''P'' \<and> 1 \<le> 9 - k
            \<and> board ! nat (9 - k - 1) ! nat f = CHR ''.''
          then (files ! nat f # str_int (9 - (9 - k)))
               # (if 9 - k = 6 \<and> board ! 4 ! nat f = CHR ''.'' then [files ! nat f # ''4'']
                  else [])
          else [])" by simp
    with pawn_moves_at_white[OF fb rng f] rng f show ?thesis
      unfolding analyze_pawn_moves_member[OF a] by blast
  next
    assume d: ?double
    have rng: "(0::int) \<le> 6" "(6::int) < 8" by simp_all
    from d have "?m \<in> set (if board ! nat 6 ! nat f = CHR ''P'' \<and> (1::int) \<le> 6
            \<and> board ! nat (6 - 1) ! nat f = CHR ''.''
          then (files ! nat f # str_int (9 - 6))
               # (if (6::int) = 6 \<and> board ! 4 ! nat f = CHR ''.'' then [files ! nat f # ''4'']
                  else [])
          else [])" by (simp add: str_int_ranks)
    with pawn_moves_at_white[OF fb rng f] f show ?thesis
      unfolding analyze_pawn_moves_member[OF a] by (intro exI[of _ 6] exI[of _ f]) auto
  qed
qed

lemma black_list_moves:
  assumes fb: "full_board board" and f: "0 \<le> f" "f < 8"
    and c: "color \<noteq> ''white''"
    and a: "analyze_pawn_moves board color = Inr valid_moves"
    and k: "1 \<le> k" "k \<le> 7"
  shows "files ! nat f # str_int k \<in> set valid_moves \<longleftrightarrow>
     (board ! nat (7 - k) ! nat f = CHR ''p'' \<and> board ! nat (8 - k) ! nat f = CHR ''.'')
     \<or> (k = 5 \<and> board ! 1 ! nat f = CHR ''p'' \<and> board ! 2 ! nat f = CHR ''.''
          \<and> board ! 3 ! nat f = CHR ''.'')"
  (is "?m \<in> _ \<longleftrightarrow> ?single \<or> ?double")
proof
  assume "?m \<in> set valid_moves"
  then obtain r g ms where rng: "0 \<le> r" "r < 8" "0 \<le> g" "g < 8"
    and ms: "pawn_moves_at board color r g = Inr ms" and m: "?m \<in> set ms"
    unfolding analyze_pawn_moves_member[OF a] by blast
  from ms m have p: "board ! nat r ! nat g = CHR ''p''" and r7: "r < 7"
    and e: "board ! nat (r + 1) ! nat g = CHR ''.''"
    and cases: "?m = files ! nat g # str_int (7 - r)
        \<or> (r = 1 \<and> board ! 3 ! nat g = CHR ''.'' \<and> ?m = files ! nat g # str_int 5)"
    unfolding pawn_moves_at_black[OF fb rng c]
    by (auto simp: str_int_ranks split: if_splits)
  from cases show "?single \<or> ?double"
  proof
    assume "?m = files ! nat g # str_int (7 - r)"
    then have "f = g \<and> k = 7 - r"
      using square_name_inj[of f g k "7 - r"] f rng r7 k by simp
    then have fg: "g = f" and rk: "r = 7 - k" by simp_all
    have "7 - k + 1 = 8 - k" by simp
    with p e have ?single unfolding fg rk by simp
    then show ?thesis ..
  next
    assume d: "r = 1 \<and> board ! 3 ! nat g = CHR ''.'' \<and> ?m = files ! nat g # str_int 5"
    then have "f = g \<and> k = 5"
      using square_name_inj[of f g k 5] f rng k by simp
    with d p e have ?double by simp
    then show ?thesis ..
  qed
next
  assume "?single \<or> ?double"
  then show "?m \<in> set valid_moves"
  proof
    assume s: ?single
    have rng: "0 \<le> 7 - k" "7 - k < 8" using k by simp_all
    have "7 - (7 - k) = k" "7 - k + 1 = 8 - k" by simp_all
    with s k have "?m \<in> set (if board ! nat (7 - k) ! nat f = CHR ''p'' \<and> 7 - k < 7
            \<and> board ! nat (7 - k + 1) ! nat f = CHR ''.''
          then (files ! nat f # str_int (7 - (7 - k)))
               # (if 7 - k = 1 \<and> board ! 3 ! nat f = CHR ''.'' then [files ! nat f # ''5'']
                  else [])
          else [])" by simp
    with pawn_moves_at_black[OF fb rng f c] rng f show ?thesis
      unfolding analyze_pawn_moves_member[OF a] by blast
  next
    assume d: ?double
    have rng: "(0::int) \<le> 1" "(1::int) < 8" by simp_all
    from d have "?m \<in> set (if board ! nat 1 ! nat f = CHR ''p'' \<and> (1::int) < 7
            \<and> board ! nat (1 + 1) ! nat f = CHR ''.''
          then (files ! nat f # str_int (7 - 1))
               # (if (1::int) = 1 \<and> board ! 3 ! nat f = CHR ''.'' then [files ! nat f # ''5'']
                  else [])
          else [])" by (simp add: str_int_ranks)
    with pawn_moves_at_black[OF fb rng f c] f show ?thesis
      unfolding analyze_pawn_moves_member[OF a] by (intro exI[of _ 1] exI[of _ f]) auto
  qed
qed


text \<open>
  C4, as the code has it. The board has eight ranks of eight cells. For a White pawn on
  rank 2, the moves appended for that pawn hold the square two ranks ahead exactly when
  the squares one and two ranks ahead are both empty, and the square one rank ahead
  exactly when that square is empty. The list \<open>analyze_pawn_moves\<close> returns names
  destinations only: it holds the square one rank ahead exactly when that square is
  empty, and the square two ranks ahead exactly when that square is empty and the square
  between is empty or holds another White pawn, whose single advance has the same name.
  The same holds for a Black pawn on rank 7, towards rank 5.
\<close>

theorem pawn_home_rank_advances:
  assumes fb: "full_board board" and f: "0 \<le> file_idx" "file_idx < 8"
  shows "(piece_at board file_idx 2 = CHR ''P'' \<longrightarrow>
           (\<exists>moves valid_moves.
              pawn_moves_at board ''white'' 6 file_idx = Inr moves
              \<and> analyze_pawn_moves board ''white'' = Inr valid_moves
              \<and> (files ! nat file_idx # ''4'' \<in> set moves \<longleftrightarrow>
                   piece_at board file_idx 3 = CHR ''.'' \<and> piece_at board file_idx 4 = CHR ''.'')
              \<and> (files ! nat file_idx # ''3'' \<in> set moves \<longleftrightarrow>
                   piece_at board file_idx 3 = CHR ''.'')
              \<and> (files ! nat file_idx # ''4'' \<in> set valid_moves \<longleftrightarrow>
                   piece_at board file_idx 4 = CHR ''.''
                   \<and> (piece_at board file_idx 3 = CHR ''.''
                      \<or> piece_at board file_idx 3 = CHR ''P''))
              \<and> (files ! nat file_idx # ''3'' \<in> set valid_moves \<longleftrightarrow>
                   piece_at board file_idx 3 = CHR ''.'')))
     \<and> (color \<noteq> ''white'' \<and> piece_at board file_idx 7 = CHR ''p'' \<longrightarrow>
           (\<exists>moves valid_moves.
              pawn_moves_at board color 1 file_idx = Inr moves
              \<and> analyze_pawn_moves board color = Inr valid_moves
              \<and> (files ! nat file_idx # ''5'' \<in> set moves \<longleftrightarrow>
                   piece_at board file_idx 6 = CHR ''.'' \<and> piece_at board file_idx 5 = CHR ''.'')
              \<and> (files ! nat file_idx # ''6'' \<in> set moves \<longleftrightarrow>
                   piece_at board file_idx 6 = CHR ''.'')
              \<and> (files ! nat file_idx # ''5'' \<in> set valid_moves \<longleftrightarrow>
                   piece_at board file_idx 5 = CHR ''.''
                   \<and> (piece_at board file_idx 6 = CHR ''.''
                      \<or> piece_at board file_idx 6 = CHR ''p''))
              \<and> (files ! nat file_idx # ''6'' \<in> set valid_moves \<longleftrightarrow>
                   piece_at board file_idx 6 = CHR ''.'')))"
proof (intro conjI impI)
  assume pawn: "piece_at board file_idx 2 = CHR ''P''"
  note m = pawn_moves_white_home[OF fb f pawn]
  from analyze_pawn_moves_full[OF fb, of "''white''"] obtain valid_moves
    where a: "analyze_pawn_moves board ''white'' = Inr valid_moves" by blast
  have l4: "files ! nat file_idx # ''4'' \<in> set valid_moves \<longleftrightarrow>
      piece_at board file_idx 4 = CHR ''.''
      \<and> (piece_at board file_idx 3 = CHR ''.'' \<or> piece_at board file_idx 3 = CHR ''P'')"
    using white_list_moves[OF fb f a, of 4] pawn
    by (auto simp: piece_at_def str_int_ranks)
  have l3: "files ! nat file_idx # ''3'' \<in> set valid_moves \<longleftrightarrow>
      piece_at board file_idx 3 = CHR ''.''"
    using white_list_moves[OF fb f a, of 3] pawn
    by (auto simp: piece_at_def str_int_ranks)
  show "\<exists>moves valid_moves.
              pawn_moves_at board ''white'' 6 file_idx = Inr moves
              \<and> analyze_pawn_moves board ''white'' = Inr valid_moves
              \<and> (files ! nat file_idx # ''4'' \<in> set moves \<longleftrightarrow>
                   piece_at board file_idx 3 = CHR ''.'' \<and> piece_at board file_idx 4 = CHR ''.'')
              \<and> (files ! nat file_idx # ''3'' \<in> set moves \<longleftrightarrow>
                   piece_at board file_idx 3 = CHR ''.'')
              \<and> (files ! nat file_idx # ''4'' \<in> set valid_moves \<longleftrightarrow>
                   piece_at board file_idx 4 = CHR ''.''
                   \<and> (piece_at board file_idx 3 = CHR ''.''
                      \<or> piece_at board file_idx 3 = CHR ''P''))
              \<and> (files ! nat file_idx # ''3'' \<in> set valid_moves \<longleftrightarrow>
                   piece_at board file_idx 3 = CHR ''.'')"
    using m a l4 l3
    by (intro exI[of _ "if piece_at board file_idx 3 = CHR ''.'' then
            (if piece_at board file_idx 4 = CHR ''.''
             then [files ! nat file_idx # ''3'', files ! nat file_idx # ''4'']
             else [files ! nat file_idx # ''3''])
          else []"] exI[of _ valid_moves]) auto
next
  assume "color \<noteq> ''white'' \<and> piece_at board file_idx 7 = CHR ''p''"
  then have c: "color \<noteq> ''white''" and pawn: "piece_at board file_idx 7 = CHR ''p''"
    by simp_all
  note m = pawn_moves_black_home[OF fb f pawn c]
  from analyze_pawn_moves_full[OF fb, of color] obtain valid_moves
    where a: "analyze_pawn_moves board color = Inr valid_moves" by blast
  have l5: "files ! nat file_idx # ''5'' \<in> set valid_moves \<longleftrightarrow>
      piece_at board file_idx 5 = CHR ''.''
      \<and> (piece_at board file_idx 6 = CHR ''.'' \<or> piece_at board file_idx 6 = CHR ''p'')"
    using black_list_moves[OF fb f c a, of 5] pawn
    by (auto simp: piece_at_def str_int_ranks)
  have l6: "files ! nat file_idx # ''6'' \<in> set valid_moves \<longleftrightarrow>
      piece_at board file_idx 6 = CHR ''.''"
    using black_list_moves[OF fb f c a, of 6] pawn
    by (auto simp: piece_at_def str_int_ranks)
  show "\<exists>moves valid_moves.
              pawn_moves_at board color 1 file_idx = Inr moves
              \<and> analyze_pawn_moves board color = Inr valid_moves
              \<and> (files ! nat file_idx # ''5'' \<in> set moves \<longleftrightarrow>
                   piece_at board file_idx 6 = CHR ''.'' \<and> piece_at board file_idx 5 = CHR ''.'')
              \<and> (files ! nat file_idx # ''6'' \<in> set moves \<longleftrightarrow>
                   piece_at board file_idx 6 = CHR ''.'')
              \<and> (files ! nat file_idx # ''5'' \<in> set valid_moves \<longleftrightarrow>
                   piece_at board file_idx 5 = CHR ''.''
                   \<and> (piece_at board file_idx 6 = CHR ''.''
                      \<or> piece_at board file_idx 6 = CHR ''p''))
              \<and> (files ! nat file_idx # ''6'' \<in> set valid_moves \<longleftrightarrow>
                   piece_at board file_idx 6 = CHR ''.'')"
    using m a l5 l6
    by (intro exI[of _ "if piece_at board file_idx 6 = CHR ''.'' then
            (if piece_at board file_idx 5 = CHR ''.''
             then [files ! nat file_idx # ''6'', files ! nat file_idx # ''5'']
             else [files ! nat file_idx # ''6''])
          else []"] exI[of _ valid_moves]) auto
qed

theorem pawn_home_rank_advances_witness:
  "full_board board_doubled_pawns
   \<and> piece_at board_doubled_pawns 1 2 = CHR ''P''
   \<and> piece_at board_doubled_pawns 1 3 = CHR ''P''
   \<and> piece_at board_doubled_pawns 1 4 = CHR ''.''
   \<and> pawn_moves_at board_doubled_pawns ''white'' 6 1 = Inr []
   \<and> analyze_pawn_moves board_doubled_pawns ''white''
       = Inr [''b4'', ''a3'', ''a4'', ''d3'', ''d4'', ''e3'', ''e4'', ''f3'',
              ''f4'', ''g3'', ''g4'', ''h3'', ''h4'']
   \<and> (\<exists>moves valid_moves.
         pawn_moves_at board_doubled_pawns ''white'' 6 1 = Inr moves
         \<and> analyze_pawn_moves board_doubled_pawns ''white'' = Inr valid_moves
         \<and> (files ! nat 1 # ''4'' \<in> set moves \<longleftrightarrow>
              piece_at board_doubled_pawns 1 3 = CHR ''.''
              \<and> piece_at board_doubled_pawns 1 4 = CHR ''.'')
         \<and> (files ! nat 1 # ''3'' \<in> set moves \<longleftrightarrow>
              piece_at board_doubled_pawns 1 3 = CHR ''.'')
         \<and> (files ! nat 1 # ''4'' \<in> set valid_moves \<longleftrightarrow>
              piece_at board_doubled_pawns 1 4 = CHR ''.''
              \<and> (piece_at board_doubled_pawns 1 3 = CHR ''.''
                 \<or> piece_at board_doubled_pawns 1 3 = CHR ''P''))
         \<and> (files ! nat 1 # ''3'' \<in> set valid_moves \<longleftrightarrow>
              piece_at board_doubled_pawns 1 3 = CHR ''.''))"
proof -
  have fb: "full_board board_doubled_pawns" by code_simp
  have b2: "piece_at board_doubled_pawns 1 2 = CHR ''P''" by code_simp
  have b3: "piece_at board_doubled_pawns 1 3 = CHR ''P''" by code_simp
  have b4: "piece_at board_doubled_pawns 1 4 = CHR ''.''" by code_simp
  have ms: "pawn_moves_at board_doubled_pawns ''white'' 6 1 = Inr []" by code_simp
  have vm: "analyze_pawn_moves board_doubled_pawns ''white''
       = Inr [''b4'', ''a3'', ''a4'', ''d3'', ''d4'', ''e3'', ''e4'', ''f3'',
              ''f4'', ''g3'', ''g4'', ''h3'', ''h4'']" by code_simp
  from pawn_home_rank_advances[OF fb, of 1 "''white''"] b2
  have "\<exists>moves valid_moves.
         pawn_moves_at board_doubled_pawns ''white'' 6 1 = Inr moves
         \<and> analyze_pawn_moves board_doubled_pawns ''white'' = Inr valid_moves
         \<and> (files ! nat 1 # ''4'' \<in> set moves \<longleftrightarrow>
              piece_at board_doubled_pawns 1 3 = CHR ''.''
              \<and> piece_at board_doubled_pawns 1 4 = CHR ''.'')
         \<and> (files ! nat 1 # ''3'' \<in> set moves \<longleftrightarrow>
              piece_at board_doubled_pawns 1 3 = CHR ''.'')
         \<and> (files ! nat 1 # ''4'' \<in> set valid_moves \<longleftrightarrow>
              piece_at board_doubled_pawns 1 4 = CHR ''.''
              \<and> (piece_at board_doubled_pawns 1 3 = CHR ''.''
                 \<or> piece_at board_doubled_pawns 1 3 = CHR ''P''))
         \<and> (files ! nat 1 # ''3'' \<in> set valid_moves \<longleftrightarrow>
              piece_at board_doubled_pawns 1 3 = CHR ''.'')"
    by simp
  with fb b2 b3 b4 ms vm show ?thesis by blast
qed

text \<open>
  C4 as the claim states it fails on the returned list: with White pawns on b2 and b3 and
  b4 empty, the square between is occupied, nothing is appended for the pawn on b2, and
  the list still holds b4, from the single advance of the pawn on b3.
\<close>

theorem pawn_double_advance_counterexample:
  "parse_fen_to_board fen_doubled_pawns = Inr board_doubled_pawns
   \<and> piece_at board_doubled_pawns 1 2 = CHR ''P''
   \<and> piece_at board_doubled_pawns 1 3 \<noteq> CHR ''.''
   \<and> pawn_moves_at board_doubled_pawns ''white'' 6 1 = Inr []
   \<and> analyze_pawn_moves board_doubled_pawns ''white''
       = Inr [''b4'', ''a3'', ''a4'', ''d3'', ''d4'', ''e3'', ''e4'', ''f3'',
              ''f4'', ''g3'', ''g4'', ''h3'', ''h4'']
   \<and> ''b4'' \<in> set [''b4'', ''a3'', ''a4'', ''d3'', ''d4'', ''e3'', ''e4'', ''f3'',
                      ''f4'', ''g3'', ''g4'', ''h3'', ''h4'']"
  by code_simp



end
